theory Spec2Isabelle
  imports Main "HOL-Library.Sublist" "HOL-Library.AList"
begin

section \<open>Python values and string operations\<close>

text \<open>
  The program is \<^verbatim>\<open>skilljar_lesson_downloader.py\<close>. A Python \<^verbatim>\<open>str\<close> is a
  \<^typ>\<open>string\<close>; a \<^typ>\<open>char\<close> stands for the code point of the same number
  (U+0000 to U+00FF), so the character tables below are Python's for that range.
  What \<^verbatim>\<open>response.json()\<close> returns is a \<open>json\<close> value; numbers are
  integers.
\<close>

datatype json =
    JNull
  | JBool bool
  | JInt int
  | JStr string
  | JList "json list"
  | JObj "(string \<times> json) list"

datatype exn =
    RequestException string
  | KeyError string
  | TypeError string
  | AttributeError string
  | ValueError string
  | IndexError string
  | OSError string
  | Exception string

fun exn_str :: "exn \<Rightarrow> string" where
  "exn_str (RequestException m) = m"
| "exn_str (KeyError m) = m"
| "exn_str (TypeError m) = m"
| "exn_str (AttributeError m) = m"
| "exn_str (ValueError m) = m"
| "exn_str (IndexError m) = m"
| "exn_str (OSError m) = m"
| "exn_str (Exception m) = m"

fun is_RequestException :: "exn \<Rightarrow> bool" where
  "is_RequestException (RequestException m) = True"
| "is_RequestException e = False"

text \<open>\<^verbatim>\<open>str.isalnum\<close> and the white space of \<^verbatim>\<open>str.rstrip()\<close>, one character.\<close>

definition isalnum :: "char \<Rightarrow> bool" where
  "isalnum c = (let n = (of_char c :: int) in
     (48 \<le> n \<and> n \<le> 57) \<or> (65 \<le> n \<and> n \<le> 90) \<or> (97 \<le> n \<and> n \<le> 122) \<or>
     n = 170 \<or> n = 178 \<or> n = 179 \<or> n = 181 \<or> n = 185 \<or> n = 186 \<or>
     n = 188 \<or> n = 189 \<or> n = 190 \<or>
     (192 \<le> n \<and> n \<le> 214) \<or> (216 \<le> n \<and> n \<le> 246) \<or> (248 \<le> n \<and> n \<le> 255))"

definition isspace :: "char \<Rightarrow> bool" where
  "isspace c = (let n = (of_char c :: int) in
     (9 \<le> n \<and> n \<le> 13) \<or> (28 \<le> n \<and> n \<le> 32) \<or> n = 133 \<or> n = 160)"

text \<open>\<^verbatim>\<open>s.isalnum()\<close>: every character is alphanumeric and there is at least one.\<close>

definition str_isalnum :: "string \<Rightarrow> bool" where
  "str_isalnum s = (s \<noteq> [] \<and> list_all isalnum s)"

definition rstrip :: "string \<Rightarrow> string" where
  "rstrip s = rev (dropWhile isspace (rev s))"

text \<open>
  Comparison without regard to case, as \<^verbatim>\<open>re.IGNORECASE\<close> does it for the ASCII
  letters: two characters are the same when their lower-case code points are.
\<close>

definition lower_code :: "char \<Rightarrow> int" where
  "lower_code c = (let n = (of_char c :: int) in
     if 65 \<le> n \<and> n \<le> 90 then n + 32 else n)"

definition ci_eq :: "char \<Rightarrow> char \<Rightarrow> bool" where
  "ci_eq c x = (lower_code x = lower_code c)"

text \<open>\<^verbatim>\<open>str.lower()\<close>, one character.\<close>

definition py_lower :: "char \<Rightarrow> char" where
  "py_lower c = (let n = (of_char c :: int) in
     if (65 \<le> n \<and> n \<le> 90) \<or> (192 \<le> n \<and> n \<le> 214) \<or> (216 \<le> n \<and> n \<le> 222)
     then char_of (n + 32) else c)"

text \<open>\<^verbatim>\<open>sub in s\<close> on two strings.\<close>

fun contains :: "string \<Rightarrow> string \<Rightarrow> bool" where
  "contains sub [] = (sub = [])"
| "contains sub (x # xs) = (prefix sub (x # xs) \<or> contains sub xs)"

text \<open>\<^verbatim>\<open>s.split(sep)\<close> with a one-character separator.\<close>

fun split_on :: "char \<Rightarrow> string \<Rightarrow> string list" where
  "split_on sep [] = [[]]"
| "split_on sep (x # xs) =
     (if x = sep then [] # split_on sep xs
      else (case split_on sep xs of
              [] \<Rightarrow> [[x]]
            | w # ws \<Rightarrow> (x # w) # ws))"

text \<open>\<^verbatim>\<open>xs[-1]\<close>.\<close>

definition last_item :: "'a list \<Rightarrow> exn + 'a" where
  "last_item xs = (case xs of [] \<Rightarrow> Inl (IndexError ''list index out of range'')
                    | _ # _ \<Rightarrow> Inr (last xs))"

text \<open>Decimal digits of a natural number, as \<^verbatim>\<open>str(n)\<close> prints them.\<close>

definition digit_char :: "nat \<Rightarrow> char" where
  "digit_char d = ''0123456789'' ! d"

fun dec :: "nat \<Rightarrow> string" where
  "dec n = (if n < 10 then [digit_char n] else dec (n div 10) @ [digit_char (n mod 10)])"

declare dec.simps [simp del]

definition dec_int :: "int \<Rightarrow> string" where
  "dec_int i = (if i < 0 then CHR ''-'' # dec (nat (- i)) else dec (nat i))"

subsection \<open>Dynamic operations on JSON values\<close>

text \<open>Truth value of an object (\<^verbatim>\<open>if x:\<close>, \<^verbatim>\<open>not x\<close>, \<^verbatim>\<open>a or b\<close>).\<close>

fun truthy :: "json \<Rightarrow> bool" where
  "truthy JNull = False"
| "truthy (JBool b) = b"
| "truthy (JInt i) = (i \<noteq> 0)"
| "truthy (JStr s) = (s \<noteq> [])"
| "truthy (JList xs) = (xs \<noteq> [])"
| "truthy (JObj kvs) = (kvs \<noteq> [])"

text \<open>\<^verbatim>\<open>key in data\<close> with a string key.\<close>

fun py_in :: "string \<Rightarrow> json \<Rightarrow> exn + bool" where
  "py_in key (JObj kvs) = Inr (key \<in> set (map fst kvs))"
| "py_in key (JList xs) = Inr (JStr key \<in> set xs)"
| "py_in key (JStr s) = Inr (contains key s)"
| "py_in key v = Inl (TypeError ''argument is not iterable'')"

text \<open>\<^verbatim>\<open>data[key]\<close> with a string key.\<close>

fun py_getitem :: "json \<Rightarrow> string \<Rightarrow> exn + json" where
  "py_getitem (JObj kvs) key =
     (case map_of kvs key of None \<Rightarrow> Inl (KeyError key) | Some v \<Rightarrow> Inr v)"
| "py_getitem v key = Inl (TypeError ''indices must be integers or object is not subscriptable'')"

text \<open>\<^verbatim>\<open>data.get(key, default)\<close>; only a dict has the method.\<close>

fun py_get :: "json \<Rightarrow> string \<Rightarrow> json \<Rightarrow> exn + json" where
  "py_get (JObj kvs) key dflt =
     (case map_of kvs key of None \<Rightarrow> Inr dflt | Some v \<Rightarrow> Inr v)"
| "py_get v key dflt = Inl (AttributeError ''object has no attribute get'')"

text \<open>The items an iteration over a value yields (\<^verbatim>\<open>for c in v\<close>, \<^verbatim>\<open>list.extend(v)\<close>).\<close>

fun py_iter :: "json \<Rightarrow> exn + json list" where
  "py_iter (JList xs) = Inr xs"
| "py_iter (JObj kvs) = Inr (map (\<lambda>kv. JStr (fst kv)) kvs)"
| "py_iter (JStr s) = Inr (map (\<lambda>c. JStr [c]) s)"
| "py_iter v = Inl (TypeError ''object is not iterable'')"

text \<open>
  \<^verbatim>\<open>str(v)\<close>, which an f-string applies to a value. The \<^verbatim>\<open>repr\<close> Python prints
  for a list or a dict is not modelled: it is the parameter \<open>py_repr\<close>.
\<close>

fun py_str :: "(json \<Rightarrow> string) \<Rightarrow> json \<Rightarrow> string" where
  "py_str py_repr (JStr s) = s"
| "py_str py_repr (JInt i) = dec_int i"
| "py_str py_repr (JBool b) = (if b then ''True'' else ''False'')"
| "py_str py_repr JNull = ''None''"
| "py_str py_repr v = py_repr v"

section \<open>Markup asset extractor\<close>

subsection \<open>The regular expressions of the source and \<^verbatim>\<open>re.findall\<close>\<close>

text \<open>
  The constructs the seven patterns use. \<open>Lit\<close> is literal text, compared without
  regard to case; \<open>One_of cs\<close> is the class \<^verbatim>\<open>[cs]\<close>; \<open>Plus_none_of cs\<close> is the
  greedy \<^verbatim>\<open>[^cs]+\<close>; \<open>Group\<close> is the one capturing group.
\<close>

datatype regex =
    Lit string
  | One_of "char list"
  | Plus_none_of "char list"
  | Cat regex regex
  | Or regex regex
  | Group regex

text \<open>Literal text at the head of the input: the text read and the rest.\<close>

fun lit_prefix :: "string \<Rightarrow> string \<Rightarrow> (string \<times> string) option" where
  "lit_prefix [] s = Some ([], s)"
| "lit_prefix (c # l) [] = None"
| "lit_prefix (c # l) (x # s) =
     (if ci_eq c x
      then (case lit_prefix l s of None \<Rightarrow> None | Some (m, rest) \<Rightarrow> Some (x # m, rest))
      else None)"

text \<open>
  The ways \<^verbatim>\<open>[^cs]+\<close> can read the head of the input, the longest first, which is the
  order in which a greedy repetition gives characters back.
\<close>

fun runs :: "char list \<Rightarrow> string \<Rightarrow> (string \<times> string) list" where
  "runs cs [] = []"
| "runs cs (x # s) =
     (if x \<in> set cs then []
      else map (\<lambda>(m, rest). (x # m, rest)) (runs cs s) @ [([x], s)])"

text \<open>
  \<open>rmatch r s\<close> lists the matches of \<open>r\<close> at the head of \<open>s\<close> in the order the
  backtracking matcher finds them (the longest repetition first, the left alternative
  first): the text matched, the input left, and the text of the group if the match
  went through it.
\<close>

type_synonym mresult = "string \<times> string \<times> string option"

fun rmatch :: "regex \<Rightarrow> string \<Rightarrow> mresult list" where
  "rmatch (Lit l) s =
     (case lit_prefix l s of None \<Rightarrow> [] | Some (m, rest) \<Rightarrow> [(m, rest, None)])"
| "rmatch (One_of cs) s =
     (case s of [] \<Rightarrow> [] | x # s' \<Rightarrow> if x \<in> set cs then [([x], s', None)] else [])"
| "rmatch (Plus_none_of cs) s = map (\<lambda>(m, rest). (m, rest, None)) (runs cs s)"
| "rmatch (Cat a b) s =
     concat (map (\<lambda>(m1, rest1, g1).
                map (\<lambda>(m2, rest2, g2).
                       (m1 @ m2, rest2, case g2 of None \<Rightarrow> g1 | Some u \<Rightarrow> Some u))
                    (rmatch b rest1))
             (rmatch a s))"
| "rmatch (Or a b) s = rmatch a s @ rmatch b s"
| "rmatch (Group r) s = map (\<lambda>(m, rest, g). (m, rest, Some m)) (rmatch r s)"

text \<open>
  \<^verbatim>\<open>re.findall(pattern, string)\<close> for a pattern with one group: scan from the left; where
  the pattern matches, keep the group of the first match the matcher finds and go on
  behind that match; elsewhere move one character on.
\<close>

function findall :: "regex \<Rightarrow> string \<Rightarrow> string list" where
  "findall r s =
     (case rmatch r s of
        [] \<Rightarrow> (case s of [] \<Rightarrow> [] | x # s' \<Rightarrow> findall r s')
      | (m, rest, g) # others \<Rightarrow>
          (case g of None \<Rightarrow> [] | Some u \<Rightarrow> u) #
          (if length rest < length s then findall r rest
           else (case s of [] \<Rightarrow> [] | x # s' \<Rightarrow> findall r s')))"
  by pat_completeness auto
termination
  by (relation "measure (\<lambda>(r, s). length s)") auto

declare findall.simps [simp del]

definition quotes :: "char list" where
  "quotes = [CHR 0x22, CHR 0x27]"

text \<open>\<^verbatim>\<open><TAG[^>]+src=["\']([^"\']+)["\']\<close>\<close>

definition src_pattern :: "string \<Rightarrow> regex" where
  "src_pattern tag =
     Cat (Lit (CHR ''<'' # tag)) (Cat (Plus_none_of ''>'') (Cat (Lit ''src='')
       (Cat (One_of quotes) (Cat (Group (Plus_none_of quotes)) (One_of quotes)))))"

text \<open>\<^verbatim>\<open>(?:pdf|doc|docx|xls|xlsx|ppt|pptx|zip|rar)\<close>\<close>

definition extensions :: regex where
  "extensions =
     Or (Lit ''pdf'') (Or (Lit ''doc'') (Or (Lit ''docx'') (Or (Lit ''xls'') (Or (Lit ''xlsx'')
       (Or (Lit ''ppt'') (Or (Lit ''pptx'') (Or (Lit ''zip'') (Lit ''rar''))))))))"

text \<open>\<^verbatim>\<open><a[^>]+href=["\']([^"\']+\.(?:pdf|...|rar))["\']\<close>\<close>

definition href_pattern :: regex where
  "href_pattern =
     Cat (Lit ''<a'') (Cat (Plus_none_of ''>'') (Cat (Lit ''href='')
       (Cat (One_of quotes)
         (Cat (Group (Cat (Plus_none_of quotes) (Cat (Lit ''.'') extensions)))
           (One_of quotes)))))"

definition patterns :: "regex list" where
  "patterns =
     [src_pattern ''img'', src_pattern ''video'', src_pattern ''audio'',
      src_pattern ''source'', src_pattern ''embed'', src_pattern ''iframe'',
      href_pattern]"

subsection \<open>\<^verbatim>\<open>_extract_urls_from_html\<close>\<close>

text \<open>\<^verbatim>\<open>url.startswith(('http://', 'https://'))\<close>\<close>

definition starts_with_http :: "string \<Rightarrow> bool" where
  "starts_with_http url = (prefix ''http://'' url \<or> prefix ''https://'' url)"

definition extract_urls_from_html :: "string \<Rightarrow> string list" where
  "extract_urls_from_html html_content =
     (if html_content = [] then []
      else
        let urls = fold (\<lambda>pattern urls. urls @ findall pattern html_content) patterns [];
            valid_urls = fold (\<lambda>url valid. if starts_with_http url then valid @ [url] else valid)
                              urls []
        in valid_urls)"

section \<open>The world outside: requests, files, console\<close>

text \<open>
  What the program does to the outside is recorded as a list of events, in the order
  in which it does them; what the outside answers is given by an environment. A
  function of the program returns its result (or the exception it raises) together
  with the events of its run.
\<close>

type_synonym path = "string list"
type_synonym params = "(string \<times> json) list"

text \<open>
  A \<^verbatim>\<open>pathlib\<close> path is the list of its parts; paths are POSIX paths. The parts of a
  text are what stands between its slashes, without the empty parts and the parts
  \<^verbatim>\<open>.\<close>; a text that begins with a slash has a root (\<^verbatim>\<open>//\<close> if it begins with exactly
  two slashes, else \<^verbatim>\<open>/\<close>), which is the first part of its path.
\<close>

definition path_parts :: "string \<Rightarrow> path" where
  "path_parts p = filter (\<lambda>part. part \<noteq> [] \<and> part \<noteq> ''.'') (split_on CHR ''/'' p)"

definition path_root :: "string \<Rightarrow> string" where
  "path_root p =
     (if prefix ''//'' p \<and> \<not> prefix ''///'' p then ''//''
      else if prefix ''/'' p then ''/'' else [])"

text \<open>\<^verbatim>\<open>dir / p\<close> for a path \<open>dir\<close> and a text \<open>p\<close>: a text with a root replaces \<open>dir\<close>.\<close>

definition joinpath :: "path \<Rightarrow> string \<Rightarrow> path" where
  "joinpath dir p =
     (if path_root p = [] then dir @ path_parts p else path_root p # path_parts p)"

text \<open>\<^verbatim>\<open>Path(p).name\<close>: the last part, the empty text if there is none.\<close>

definition path_name :: "string \<Rightarrow> string" where
  "path_name p = (case path_parts p of [] \<Rightarrow> [] | part # parts \<Rightarrow> last (part # parts))"

text \<open>An API response: what \<^verbatim>\<open>raise_for_status()\<close> raises, what \<^verbatim>\<open>json()\<close> returns.\<close>

record api_response =
  status_error :: "exn option"
  json_body :: "exn + json"

text \<open>
  The response to a streaming GET of an asset: what \<^verbatim>\<open>raise_for_status()\<close> raises, the
  \<^verbatim>\<open>content-type\<close> header if there is one, the chunks \<^verbatim>\<open>iter_content\<close> yields, and
  the exception that ends the stream, if any.
\<close>

record download =
  download_status_error :: "exn option"
  content_type :: "string option"
  chunks :: "string list"
  stream_error :: "exn option"

text \<open>
  The environment: the base URL of the session, the library functions
  \<^verbatim>\<open>urljoin\<close>, \<^verbatim>\<open>urlparse(url).path\<close> and \<^verbatim>\<open>repr\<close>, the answers of the API and
  of the asset hosts, and whether a directory can be made and a file be written.
\<close>

record env =
  base_url :: string
  urljoin :: "string \<Rightarrow> string \<Rightarrow> string"
  session_request :: "string \<Rightarrow> string \<Rightarrow> params \<Rightarrow> exn + api_response"
  requests_get :: "string \<Rightarrow> exn + download"
  urlparse_path :: "string \<Rightarrow> exn + string"
  mkdir :: "path \<Rightarrow> exn option"
  write_file :: "path \<Rightarrow> exn option"
  py_repr :: "json \<Rightarrow> string"

datatype event =
    Print string
  | Sleep nat
  | Session_request string string params
  | Mkdir path
  | Write_json path json
  | Download_file_call json path string bool
  | Requests_get string
  | Write_bytes path string

text \<open>
  \<open>Sleep\<close> counts milliseconds. \<open>Download_file_call\<close> marks the entry into
  \<^verbatim>\<open>_download_file\<close> with its arguments.
\<close>

type_synonym 'a run = "(exn + 'a) \<times> event list"

definition ret :: "'a \<Rightarrow> 'a run" where
  "ret x = (Inr x, [])"

definition raise :: "exn \<Rightarrow> 'a run" where
  "raise e = (Inl e, [])"

definition lift :: "exn + 'a \<Rightarrow> 'a run" where
  "lift r = (r, [])"

definition emit :: "event \<Rightarrow> unit run" where
  "emit ev = (Inr (), [ev])"

text \<open>One statement after another: an exception ends the sequence.\<close>

definition bnd :: "'a run \<Rightarrow> ('a \<Rightarrow> 'b run) \<Rightarrow> 'b run" where
  "bnd m f =
     (case m of
        (Inl e, evs) \<Rightarrow> (Inl e, evs)
      | (Inr x, evs) \<Rightarrow> (case f x of (r, evs') \<Rightarrow> (r, evs @ evs')))"

text \<open>\<^verbatim>\<open>try: m except Exception as e: h e\<close>\<close>

definition catch :: "'a run \<Rightarrow> (exn \<Rightarrow> 'a run) \<Rightarrow> 'a run" where
  "catch m h =
     (case m of
        (Inl e, evs) \<Rightarrow> (case h e of (r, evs') \<Rightarrow> (r, evs @ evs'))
      | (Inr x, evs) \<Rightarrow> (Inr x, evs))"

text \<open>\<^verbatim>\<open>try: m except requests.exceptions.RequestException as e: h e\<close>\<close>

definition catch_request :: "'a run \<Rightarrow> (exn \<Rightarrow> 'a run) \<Rightarrow> 'a run" where
  "catch_request m h =
     (case m of
        (Inl e, evs) \<Rightarrow>
          (if is_RequestException e then (case h e of (r, evs') \<Rightarrow> (r, evs @ evs'))
           else (Inl e, evs))
      | (Inr x, evs) \<Rightarrow> (Inr x, evs))"

text \<open>
  The pagination loop need not end, so a function that runs it returns an option:
  \<open>None\<close> is a run that never returns.
\<close>

definition pbnd :: "'a run option \<Rightarrow> ('a \<Rightarrow> 'b run option) \<Rightarrow> 'b run option" where
  "pbnd m f =
     (case m of
        None \<Rightarrow> None
      | Some (Inl e, evs) \<Rightarrow> Some (Inl e, evs)
      | Some (Inr x, evs) \<Rightarrow>
          (case f x of None \<Rightarrow> None | Some (r, evs') \<Rightarrow> Some (r, evs @ evs')))"

definition pcatch :: "'a run option \<Rightarrow> (exn \<Rightarrow> 'a run) \<Rightarrow> 'a run option" where
  "pcatch m h = map_option (\<lambda>r. catch r h) m"

definition do_mkdir :: "env \<Rightarrow> path \<Rightarrow> unit run" where
  "do_mkdir env dir =
     (case mkdir env dir of Some e \<Rightarrow> raise e | None \<Rightarrow> emit (Mkdir dir))"

text \<open>\<^verbatim>\<open>with open(file, 'w') as f: json.dump(obj, f, indent=2, ensure_ascii=False)\<close>\<close>

definition write_json :: "env \<Rightarrow> path \<Rightarrow> json \<Rightarrow> unit run" where
  "write_json env file obj =
     (case write_file env file of Some e \<Rightarrow> raise e | None \<Rightarrow> emit (Write_json file obj))"

section \<open>Catalog fetcher\<close>

text \<open>\<^verbatim>\<open>_make_request\<close>\<close>

definition make_request :: "env \<Rightarrow> string \<Rightarrow> string \<Rightarrow> params \<Rightarrow> api_response run" where
  "make_request env method endpoint kwargs =
     (let url = urljoin env (base_url env) endpoint in
      catch_request
        (bnd (emit (Session_request method url kwargs)) (\<lambda>_.
         bnd (lift (session_request env method url kwargs)) (\<lambda>response.
         case status_error response of
           Some e \<Rightarrow> raise e
         | None \<Rightarrow> ret response)))
        (\<lambda>e. bnd (emit (Print (''Error making request to '' @ url @ '': '' @ exn_str e)))
               (\<lambda>_. raise e)))"

text \<open>
  The three response formats of \<^verbatim>\<open>_get_paginated_results\<close>: the results of a page and
  whether it names a next page.
\<close>

definition page_results :: "json \<Rightarrow> exn + (json \<times> bool)" where
  "page_results data =
     (case py_in ''results'' data of
        Inl e \<Rightarrow> Inl e
      | Inr True \<Rightarrow>
          (case py_getitem data ''results'' of
             Inl e \<Rightarrow> Inl e
           | Inr results \<Rightarrow>
               (case py_get data ''next'' JNull of
                  Inl e \<Rightarrow> Inl e
                | Inr nxt \<Rightarrow> Inr (results, nxt \<noteq> JNull)))
      | Inr False \<Rightarrow>
          (case data of
             JList xs \<Rightarrow> Inr (data, False)
           | _ \<Rightarrow> Inr (JList [data], False)))"

text \<open>One turn of the loop up to the results: the request of a page and its reading.\<close>

definition fetch_page :: "env \<Rightarrow> string \<Rightarrow> params \<Rightarrow> nat \<Rightarrow> (json \<times> bool) run" where
  "fetch_page env endpoint params page =
     (let current_params = AList.update ''page'' (JInt (int page)) params in
      bnd (make_request env ''GET'' endpoint current_params) (\<lambda>response.
      bnd (lift (json_body response)) (\<lambda>data.
      lift (page_results data))))"

text \<open>
  The \<^verbatim>\<open>while True\<close> loop, with the page counter, the results so far and the events
  so far.
\<close>

partial_function (option) paginate ::
  "env \<Rightarrow> string \<Rightarrow> params \<Rightarrow> nat \<Rightarrow> json list \<Rightarrow> event list \<Rightarrow> json list run option" where
  "paginate env endpoint params page all_results evs =
     (case fetch_page env endpoint params page of
        (Inl e, evs1) \<Rightarrow> Some (Inl e, evs @ evs1)
      | (Inr (results, has_next), evs1) \<Rightarrow>
          (case py_iter results of
             Inl e \<Rightarrow> Some (Inl e, evs @ evs1)
           | Inr items \<Rightarrow>
               if \<not> has_next \<or> \<not> truthy results
               then Some (Inr (all_results @ items), evs @ evs1)
               else paginate env endpoint params (page + 1) (all_results @ items)
                      (evs @ evs1 @ [Sleep 100])))"

declare paginate.simps [code]

definition get_paginated_results :: "env \<Rightarrow> string \<Rightarrow> params \<Rightarrow> json list run option" where
  "get_paginated_results env endpoint params = paginate env endpoint params 1 [] []"

definition get_course_lessons :: "env \<Rightarrow> string \<Rightarrow> json list run option" where
  "get_course_lessons env course_id =
     pbnd (Some (emit (Print (''Fetching lessons for course '' @ course_id @ ''...'')))) (\<lambda>_.
     map_option
       (\<lambda>m. catch_request m
          (\<lambda>e. raise (Exception (''Could not fetch lessons for course '' @ course_id @
                                  '': '' @ exn_str e))))
       (get_paginated_results env ''/v1/lessons'' [(''course_id'', JStr course_id)]))"

definition get_lesson_details :: "env \<Rightarrow> json \<Rightarrow> json run" where
  "get_lesson_details env lesson_id =
     bnd (make_request env ''GET'' (''/v1/lessons/'' @ py_str (py_repr env) lesson_id) [])
       (\<lambda>response. lift (json_body response))"

definition get_lesson_content :: "env \<Rightarrow> json \<Rightarrow> json list run option" where
  "get_lesson_content env lesson_id =
     map_option
       (\<lambda>m. catch_request m
          (\<lambda>e. bnd (emit (Print (''Warning: Could not fetch content items for lesson '' @
                                  py_str (py_repr env) lesson_id)))
                 (\<lambda>_. ret [])))
       (get_paginated_results env
          (''/v1/lessons/'' @ py_str (py_repr env) lesson_id @ ''/content-items'') [])"

section \<open>Asset retriever\<close>

text \<open>
  The file name \<^verbatim>\<open>_download_file\<close> determines (the \<^verbatim>\<open>if use_extension\<close> statement).
  A URL that is not a string has no \<^verbatim>\<open>split\<close>.
\<close>

definition determine_filename :: "json \<Rightarrow> download \<Rightarrow> string \<Rightarrow> bool \<Rightarrow> exn + string" where
  "determine_filename url response filename_prefix use_extension =
     (if use_extension then
        (case url of
           JStr u \<Rightarrow>
             (case last_item (split_on CHR ''/'' u) of
                Inl e \<Rightarrow> Inl e
              | Inr segment \<Rightarrow>
                  if CHR ''.'' \<in> set segment then
                    (case last_item (split_on CHR ''.'' segment) of
                       Inl e \<Rightarrow> Inl e
                     | Inr ext \<Rightarrow> Inr (filename_prefix @ ''.'' @ ext))
                  else
                    (case content_type response of
                       Some header \<Rightarrow>
                         (let content_type = map py_lower header in
                          if contains ''video'' content_type then Inr (filename_prefix @ ''.mp4'')
                          else if contains ''pdf'' content_type then Inr (filename_prefix @ ''.pdf'')
                          else if contains ''image'' content_type then Inr (filename_prefix @ ''.jpg'')
                          else Inr filename_prefix)
                     | None \<Rightarrow> Inr filename_prefix))
         | _ \<Rightarrow> Inl (AttributeError ''object has no attribute split''))
      else Inr filename_prefix)"

text \<open>
  \<^verbatim>\<open>_download_file\<close>. \<^verbatim>\<open>requests.get\<close> takes the URL as the string \<^verbatim>\<open>str(url)\<close>.
  Every exception is caught and printed.
\<close>

definition download_file :: "env \<Rightarrow> json \<Rightarrow> path \<Rightarrow> string \<Rightarrow> bool \<Rightarrow> unit run" where
  "download_file env url output_dir filename_prefix use_extension =
     bnd (emit (Download_file_call url output_dir filename_prefix use_extension)) (\<lambda>_.
     catch
       (bnd (emit (Requests_get (py_str (py_repr env) url))) (\<lambda>_.
        bnd (lift (requests_get env (py_str (py_repr env) url))) (\<lambda>response.
        bnd (case download_status_error response of Some e \<Rightarrow> raise e | None \<Rightarrow> ret ()) (\<lambda>_.
        bnd (lift (determine_filename url response filename_prefix use_extension)) (\<lambda>filename.
        let filepath = joinpath output_dir filename in
        bnd (case write_file env filepath of Some e \<Rightarrow> raise e | None \<Rightarrow> ret ()) (\<lambda>_.
        bnd (emit (Write_bytes filepath (concat (chunks response)))) (\<lambda>_.
        bnd (case stream_error response of Some e \<Rightarrow> raise e | None \<Rightarrow> ret ()) (\<lambda>_.
        emit (Print (''    Downloaded: '' @ filename))))))))))
       (\<lambda>e. emit (Print (''    Error downloading '' @ py_str (py_repr env) url @ '': '' @
                          exn_str e))))"

section \<open>Lesson materializer\<close>

text \<open>
  \<^verbatim>\<open>"".join(c for c in lesson_title if c.isalnum() or c in (' ', '-', '_'))\<close>: the
  items kept, joined.
\<close>

fun keep_safe :: "json list \<Rightarrow> exn + string" where
  "keep_safe [] = Inr []"
| "keep_safe (JStr c # cs) =
     (case keep_safe cs of
        Inl e \<Rightarrow> Inl e
      | Inr rest \<Rightarrow>
          Inr ((if str_isalnum c \<or> c \<in> {'' '', ''-'', ''_''} then c else []) @ rest))"
| "keep_safe (v # cs) = Inl (AttributeError ''object has no attribute isalnum'')"

definition safe_title_of :: "json \<Rightarrow> exn + string" where
  "safe_title_of lesson_title =
     (case py_iter lesson_title of
        Inl e \<Rightarrow> Inl e
      | Inr cs \<Rightarrow> (case keep_safe cs of Inl e \<Rightarrow> Inl e | Inr kept \<Rightarrow> Inr (rstrip kept)))"

text \<open>The first loop over the content items: direct content files.\<close>

fun download_direct_files :: "env \<Rightarrow> path \<Rightarrow> nat \<Rightarrow> json list \<Rightarrow> unit run" where
  "download_direct_files env lesson_dir i [] = ret ()"
| "download_direct_files env lesson_dir i (content_item # items) =
     bnd (bnd (lift (py_in ''url'' content_item)) (\<lambda>has_url.
          bnd (if has_url then ret True else lift (py_in ''file_url'' content_item)) (\<lambda>has_any.
          if has_any then
            bnd (lift (py_get content_item ''url'' JNull)) (\<lambda>url.
            bnd (if truthy url then ret url
                 else lift (py_get content_item ''file_url'' JNull)) (\<lambda>file_url.
            if truthy file_url
            then download_file env file_url lesson_dir (''content_'' @ dec i) True
            else ret ()))
          else ret ())))
       (\<lambda>_. download_direct_files env lesson_dir (Suc i) items)"

text \<open>The loop over the URLs of one HTML fragment; it returns the asset counter.\<close>

fun download_assets :: "env \<Rightarrow> path \<Rightarrow> nat \<Rightarrow> string list \<Rightarrow> nat run" where
  "download_assets env lesson_dir asset_counter [] = ret asset_counter"
| "download_assets env lesson_dir asset_counter (url # urls) =
     bnd (catch
            (bnd (lift (urlparse_path env url)) (\<lambda>parsed_path.
             let original_filename = path_name parsed_path;
                 filename_prefix =
                   (if original_filename \<noteq> []
                    then ''asset_'' @ dec asset_counter @ ''_'' @ original_filename
                    else ''asset_'' @ dec asset_counter) in
             bnd (download_file env (JStr url) lesson_dir filename_prefix False) (\<lambda>_.
             ret (asset_counter + 1))))
            (\<lambda>e. bnd (emit (Print (''    Failed to download asset '' @ url @ '': '' @
                                    exn_str e)))
                   (\<lambda>_. ret asset_counter)))
       (\<lambda>asset_counter. download_assets env lesson_dir asset_counter urls)"

text \<open>The second loop over the content items: assets of the HTML fragments.\<close>

fun download_html_assets :: "env \<Rightarrow> path \<Rightarrow> nat \<Rightarrow> json list \<Rightarrow> nat run" where
  "download_html_assets env lesson_dir asset_counter [] = ret asset_counter"
| "download_html_assets env lesson_dir asset_counter (content_item # items) =
     bnd (lift (py_get content_item ''content_html'' (JStr []))) (\<lambda>html_content.
     bnd (if truthy html_content then
            bnd (lift (case html_content of
                         JStr h \<Rightarrow> Inr (extract_urls_from_html h)
                       | _ \<Rightarrow> Inl (TypeError ''expected string or bytes-like object'')))
              (\<lambda>urls. download_assets env lesson_dir asset_counter urls)
          else ret asset_counter) (\<lambda>asset_counter.
     download_html_assets env lesson_dir asset_counter items))"

text \<open>
  The first statements of \<^verbatim>\<open>download_lesson_content\<close>: the id, the title and the
  directory of the lesson.
\<close>

definition lesson_directory :: "env \<Rightarrow> json \<Rightarrow> path \<Rightarrow> exn + (json \<times> json \<times> path)" where
  "lesson_directory env lesson output_dir =
     (case py_getitem lesson ''id'' of
        Inl e \<Rightarrow> Inl e
      | Inr lesson_id \<Rightarrow>
          (case py_get lesson ''title'' (JStr (''Lesson_'' @ py_str (py_repr env) lesson_id)) of
             Inl e \<Rightarrow> Inl e
           | Inr lesson_title \<Rightarrow>
               (case safe_title_of lesson_title of
                  Inl e \<Rightarrow> Inl e
                | Inr safe_title \<Rightarrow>
                    Inr (lesson_id, lesson_title,
                         joinpath output_dir
                           (safe_title @ ''_'' @ py_str (py_repr env) lesson_id)))))"

text \<open>\<^verbatim>\<open>download_lesson_content\<close>\<close>

definition download_lesson_content :: "env \<Rightarrow> json \<Rightarrow> path \<Rightarrow> unit run option" where
  "download_lesson_content env lesson output_dir =
     pbnd (Some (lift (lesson_directory env lesson output_dir)))
       (\<lambda>(lesson_id, lesson_title, lesson_dir).
     pbnd (Some (do_mkdir env lesson_dir)) (\<lambda>_.
     pbnd (Some (emit (Print (''  Downloading lesson: '' @
             py_str (py_repr env) lesson_title)))) (\<lambda>_.
     pbnd (Some (get_lesson_details env lesson_id)) (\<lambda>lesson_details.
     pbnd (Some (write_json env (lesson_dir @ [''lesson_metadata.json'']) lesson_details)) (\<lambda>_.
     pbnd (get_lesson_content env lesson_id) (\<lambda>content_items.
     pbnd (Some (if content_items \<noteq> []
                 then write_json env (lesson_dir @ [''content_items.json''])
                        (JList content_items)
                 else ret ())) (\<lambda>_.
     pbnd (Some (download_direct_files env lesson_dir 0 content_items)) (\<lambda>_.
     pbnd (Some (download_html_assets env lesson_dir 0 content_items)) (\<lambda>_.
     Some (emit (Sleep 200)))))))))))"

section \<open>The course loop\<close>

text \<open>\<^verbatim>\<open>for lesson in lessons: self.download_lesson_content(lesson, course_dir)\<close>\<close>

fun download_lessons :: "env \<Rightarrow> path \<Rightarrow> json list \<Rightarrow> unit run option" where
  "download_lessons env course_dir [] = Some (ret ())"
| "download_lessons env course_dir (lesson # lessons) =
     pbnd (download_lesson_content env lesson course_dir) (\<lambda>_.
     download_lessons env course_dir lessons)"

text \<open>One turn of the loop over the course ids: the \<^verbatim>\<open>try\<close> statement and its handler.\<close>

definition process_course :: "env \<Rightarrow> path \<Rightarrow> string \<Rightarrow> unit run option" where
  "process_course env output_path course_id =
     pbnd (Some (emit (Print (CHR 0x0A # ''Processing course: '' @ course_id)))) (\<lambda>_.
     pcatch
       (let course_dir = joinpath output_path (''course_'' @ course_id) in
        pbnd (Some (do_mkdir env course_dir)) (\<lambda>_.
        pbnd (get_course_lessons env course_id) (\<lambda>lessons.
        if lessons = []
        then Some (emit (Print (''  No lessons found for course '' @ course_id)))
        else
          pbnd (Some (emit (Print (''  Found '' @ dec (length lessons) @ '' lessons'')))) (\<lambda>_.
          pbnd (download_lessons env course_dir lessons) (\<lambda>_.
          Some (emit (Print (''  Completed course '' @ course_id))))))))
       (\<lambda>e. emit (Print (''  Error processing course '' @ course_id @ '': '' @ exn_str e))))"

fun process_courses :: "env \<Rightarrow> path \<Rightarrow> string list \<Rightarrow> unit run option" where
  "process_courses env output_path [] = Some (ret ())"
| "process_courses env output_path (course_id # course_ids) =
     pbnd (process_course env output_path course_id) (\<lambda>_.
     process_courses env output_path course_ids)"

text \<open>\<^verbatim>\<open>download_courses\<close>\<close>

definition download_courses :: "env \<Rightarrow> string list \<Rightarrow> string \<Rightarrow> unit run option" where
  "download_courses env course_ids output_dir =
     (let output_path = joinpath [] output_dir in
      pbnd (Some (do_mkdir env output_path)) (\<lambda>_.
      process_courses env output_path course_ids))"

section \<open>Notions the properties are stated with\<close>

subsection \<open>Lesson directory names\<close>

text \<open>
  The characters a lesson title keeps, and the title with every other character
  removed and its trailing spaces trimmed.
\<close>

definition keep_char :: "char \<Rightarrow> bool" where
  "keep_char c = (isalnum c \<or> c = CHR '' '' \<or> c = CHR ''-'' \<or> c = CHR ''_'')"

definition sanitized :: "string \<Rightarrow> string" where
  "sanitized t = rev (dropWhile (\<lambda>c. c = CHR '' '') (rev (filter keep_char t)))"

text \<open>The text the lesson directory is named by, for the title \<open>t\<close> and the id \<open>i\<close>.\<close>

definition directory_name :: "string \<Rightarrow> string \<Rightarrow> string" where
  "directory_name t i = sanitized t @ ''_'' @ i"

subsection \<open>Example environments\<close>

text \<open>
  The path of an absolute URL: what follows the scheme and the host, up to a query
  (\<^verbatim>\<open>?\<close>) or a fragment (\<^verbatim>\<open>#\<close>).
\<close>

definition url_path :: "string \<Rightarrow> string" where
  "url_path url =
     (let after_scheme =
            (if prefix ''https://'' url then drop 8 url
             else if prefix ''http://'' url then drop 7 url else url);
          from_path = dropWhile (\<lambda>c. c \<notin> set ''/?#'') after_scheme
      in takeWhile (\<lambda>c. c \<notin> set ''?#'') from_path)"

text \<open>
  An environment in which nothing is reachable: every request fails, every directory
  can be made and every file be written.
\<close>

definition offline :: env where
  "offline =
     \<lparr> base_url = ''https://api.skilljar.com'',
       urljoin = (\<lambda>base endpoint. base @ endpoint),
       session_request = (\<lambda>method url kwargs. Inl (RequestException ''connection refused'')),
       requests_get = (\<lambda>url. Inl (RequestException ''connection refused'')),
       urlparse_path = (\<lambda>url. Inr (url_path url)),
       mkdir = (\<lambda>dir. None),
       write_file = (\<lambda>file. None),
       py_repr = (\<lambda>v. ''...'') \<rparr>"

subsection \<open>Occurrences of quoted attributes in markup\<close>






subsection \<open>File names of downloads\<close>

text \<open>The text behind the last occurrence of a character (the whole text if it has none).\<close>

definition after_last :: "char \<Rightarrow> string \<Rightarrow> string" where
  "after_last c s = rev (takeWhile (\<lambda>x. x \<noteq> c) (rev s))"

text \<open>\<open>sub\<close> stands somewhere in \<open>s\<close>.\<close>

definition occurs_in :: "string \<Rightarrow> string \<Rightarrow> bool" where
  "occurs_in sub s = (\<exists>pre post. s = pre @ sub @ post)"

text \<open>
  The extension inferred from a content type: the first of three substring tests on
  the lower-cased header that holds.
\<close>

definition extension_by_content_type :: "string \<Rightarrow> string" where
  "extension_by_content_type header =
     (if occurs_in ''video'' (map py_lower header) then ''.mp4''
      else if occurs_in ''pdf'' (map py_lower header) then ''.pdf''
      else if occurs_in ''image'' (map py_lower header) then ''.jpg''
      else [])"

text \<open>
  The extension inferred for a URL and a content-type header: from the text behind the
  last \<^verbatim>\<open>/\<close> of the URL if it has a dot, else from the header, else none.
\<close>

definition inferred_extension :: "string \<Rightarrow> string option \<Rightarrow> string" where
  "inferred_extension u header =
     (if CHR ''.'' \<in> set (after_last CHR ''/'' u)
      then CHR ''.'' # after_last CHR ''.'' (after_last CHR ''/'' u)
      else (case header of None \<Rightarrow> [] | Some h \<Rightarrow> extension_by_content_type h))"

text \<open>
  The rule in the words of the claim as it was stated: the trailing segment of the
  URL's path, and the mapping \<^verbatim>\<open>video/*\<close>, \<^verbatim>\<open>*pdf*\<close>, \<^verbatim>\<open>image/*\<close>.
\<close>

definition claimed_extension :: "string \<Rightarrow> string option \<Rightarrow> string" where
  "claimed_extension u header =
     (if CHR ''.'' \<in> set (after_last CHR ''/'' (url_path u))
      then CHR ''.'' # after_last CHR ''.'' (after_last CHR ''/'' (url_path u))
      else (case header of
              None \<Rightarrow> []
            | Some h \<Rightarrow>
                if prefix ''video/'' (map py_lower h) then ''.mp4''
                else if contains ''pdf'' (map py_lower h) then ''.pdf''
                else if prefix ''image/'' (map py_lower h) then ''.jpg''
                else []))"

subsection \<open>A small world\<close>

text \<open>
  Course \<^verbatim>\<open>c1\<close> has two lessons on two pages. Lesson \<^verbatim>\<open>L1\<close> has three content items;
  the content items of lesson \<^verbatim>\<open>L2\<close> cannot be fetched. Every other API request
  fails, so course \<^verbatim>\<open>c2\<close> cannot be listed; the first page of course \<^verbatim>\<open>c3\<close> is empty
  and names a next page. Of the assets, \<^verbatim>\<open>http://a/c.pdf\<close> cannot
  be fetched, and \<^verbatim>\<open>https://[\<close> is no URL that \<^verbatim>\<open>urlparse\<close> accepts.
\<close>

definition api_ok :: "json \<Rightarrow> exn + api_response" where
  "api_ok data = Inr \<lparr> status_error = None, json_body = Inr data \<rparr>"

definition lesson1 :: json where
  "lesson1 = JObj [(''id'', JStr ''L1''), (''title'', JStr ''Intro: Part 1/2?'')]"

definition lesson2 :: json where
  "lesson2 = JObj [(''id'', JStr ''L2''), (''title'', JStr ''Wrap-up'')]"

definition item0 :: json where
  "item0 = JObj [(''url'', JStr ''https://cdn.example/intro.mp4''),
                 (''file_url'', JStr ''https://cdn.example/raw''),
                 (''content_html'', JStr ''<img src='http://a/b'>'')]"

definition item1 :: json where
  "item1 = JObj [(''url'', JStr []), (''file_url'', JStr ''https://cdn.example/logo'')]"

definition item2 :: json where
  "item2 = JObj [(''content_html'',
                  JStr ''<img src='http://a/b'><video src='https://['></video><a href='http://a/c.pdf'>x</a>'')]"

definition demo_api :: "string \<Rightarrow> string \<Rightarrow> params \<Rightarrow> exn + api_response" where
  "demo_api method url kwargs =
     (if url = ''https://api.skilljar.com/v1/lessons'' \<and>
         kwargs = [(''course_id'', JStr ''c1''), (''page'', JInt 1)]
      then api_ok (JObj [(''results'', JList [lesson1]), (''next'', JStr ''?page=2'')])
      else if url = ''https://api.skilljar.com/v1/lessons'' \<and>
         kwargs = [(''course_id'', JStr ''c1''), (''page'', JInt 2)]
      then api_ok (JObj [(''results'', JList [lesson2]), (''next'', JNull)])
      else if url = ''https://api.skilljar.com/v1/lessons'' \<and>
         kwargs = [(''course_id'', JStr ''c3''), (''page'', JInt 1)]
      then api_ok (JObj [(''results'', JList []), (''next'', JStr ''?page=2'')])
      else if url = ''https://api.skilljar.com/v1/lessons/L1''
      then api_ok (JObj [(''id'', JStr ''L1''), (''order'', JInt 1)])
      else if url = ''https://api.skilljar.com/v1/lessons/L2''
      then api_ok (JObj [(''id'', JStr ''L2''), (''order'', JInt 2)])
      else if url = ''https://api.skilljar.com/v1/lessons/L1/content-items'' \<and>
         kwargs = [(''page'', JInt 1)]
      then api_ok (JObj [(''results'', JList [item0, item1, item2])])
      else Inl (RequestException ''404 Client Error''))"

definition asset :: "string option \<Rightarrow> string list \<Rightarrow> exn + download" where
  "asset header body =
     Inr \<lparr> download_status_error = None, content_type = header, chunks = body,
           stream_error = None \<rparr>"

definition demo_assets :: "string \<Rightarrow> exn + download" where
  "demo_assets url =
     (if url = ''https://cdn.example/intro.mp4'' then asset (Some ''video/mp4'') [''ab'', ''cd'']
      else if url = ''https://cdn.example/logo'' then asset (Some ''image/png'') [''png'']
      else if url = ''https://cdn.example/blob'' then asset None [''raw'']
      else if url = ''http://a/b'' then asset (Some ''text/plain'') [''b'']
      else Inl (RequestException ''404 Client Error''))"

definition demo :: env where
  "demo =
     \<lparr> base_url = ''https://api.skilljar.com'',
       urljoin = (\<lambda>base endpoint. base @ endpoint),
       session_request = demo_api,
       requests_get = demo_assets,
       urlparse_path = (\<lambda>url. if url = ''https://[''
                                then Inl (ValueError ''Invalid IPv6 URL'')
                                else Inr (url_path url)),
       mkdir = (\<lambda>dir. None),
       write_file = (\<lambda>file. None),
       py_repr = (\<lambda>v. ''...'') \<rparr>"

subsection \<open>Paginated endpoints\<close>

text \<open>
  The request of page \<open>k\<close>; an endpoint that answers it with an object whose
  \<^verbatim>\<open>results\<close> are the list \<open>items\<close> and which names a next page or not
  (\<^verbatim>\<open>next\<close> absent or \<^verbatim>\<open>null\<close>); the events of fetching the pages \<open>k\<close> to \<open>n\<close>.
\<close>

definition page_request :: "env \<Rightarrow> string \<Rightarrow> params \<Rightarrow> nat \<Rightarrow> event" where
  "page_request env endpoint params k =
     Session_request ''GET'' (urljoin env (base_url env) endpoint)
       (AList.update ''page'' (JInt (int k)) params)"

definition serves_page :: "env \<Rightarrow> string \<Rightarrow> params \<Rightarrow> nat \<Rightarrow> json list \<Rightarrow> bool \<Rightarrow> bool" where
  "serves_page env endpoint params k items has_next =
     (\<exists>obj. session_request env ''GET'' (urljoin env (base_url env) endpoint)
               (AList.update ''page'' (JInt (int k)) params) =
             Inr \<lparr> status_error = None, json_body = Inr (JObj obj) \<rparr> \<and>
           map_of obj ''results'' = Some (JList items) \<and>
           has_next = (\<exists>v. map_of obj ''next'' = Some v \<and> v \<noteq> JNull))"

definition page_events :: "env \<Rightarrow> string \<Rightarrow> params \<Rightarrow> nat \<Rightarrow> nat \<Rightarrow> event list" where
  "page_events env endpoint params k n =
     concat (map (\<lambda>j. [page_request env endpoint params j, Sleep 100]) [k ..< n]) @
     [page_request env endpoint params n]"

subsection \<open>A course whose lessons cannot be listed\<close>

text \<open>
  The message of the error \<^verbatim>\<open>get_course_lessons\<close> raises; the events of a turn of the
  course loop in which the listing failed after the events \<open>evs\<close>; a request of page
  \<open>k\<close> that fails in transport or by its HTTP status; the events of a listing whose
  request of page \<open>n\<close> fails.
\<close>

definition fetch_error_message :: "string \<Rightarrow> string \<Rightarrow> string" where
  "fetch_error_message course_id cause =
     ''Could not fetch lessons for course '' @ course_id @ '': '' @ cause"

definition failed_course_events :: "path \<Rightarrow> string \<Rightarrow> string \<Rightarrow> event list \<Rightarrow> event list" where
  "failed_course_events output_path course_id cause evs =
     [Print (CHR 0x0A # ''Processing course: '' @ course_id),
      Mkdir (joinpath output_path (''course_'' @ course_id)),
      Print (''Fetching lessons for course '' @ course_id @ ''...'')] @ evs @
     [Print (''  Error processing course '' @ course_id @ '': '' @
             fetch_error_message course_id cause)]"

definition request_fails :: "env \<Rightarrow> string \<Rightarrow> params \<Rightarrow> nat \<Rightarrow> string \<Rightarrow> bool" where
  "request_fails env endpoint params k cause =
     (session_request env ''GET'' (urljoin env (base_url env) endpoint)
        (AList.update ''page'' (JInt (int k)) params) = Inl (RequestException cause) \<or>
      (\<exists>response.
         session_request env ''GET'' (urljoin env (base_url env) endpoint)
           (AList.update ''page'' (JInt (int k)) params) = Inr response \<and>
         status_error response = Some (RequestException cause)))"

definition failed_fetch_events :: "env \<Rightarrow> string \<Rightarrow> params \<Rightarrow> nat \<Rightarrow> string \<Rightarrow> event list" where
  "failed_fetch_events env endpoint params n cause =
     concat (map (\<lambda>j. [page_request env endpoint params j, Sleep 100]) [1 ..< n]) @
     [page_request env endpoint params n,
      Print (''Error making request to '' @ urljoin env (base_url env) endpoint @ '': '' @
             cause)]"

subsection \<open>Asset file names\<close>

text \<open>The number a string of decimal digits stands for.\<close>

definition undec :: "string \<Rightarrow> nat" where
  "undec s = foldl (\<lambda>a c. 10 * a + (of_char c - 48)) 0 s"

text \<open>The file name prefix of the asset with counter \<open>k\<close> and original file name \<open>name\<close>.\<close>

definition asset_prefix :: "nat \<Rightarrow> string \<Rightarrow> string" where
  "asset_prefix k name =
     (if name \<noteq> [] then ''asset_'' @ dec k @ ''_'' @ name else ''asset_'' @ dec k)"

subsection \<open>Calls of the asset retriever and content items\<close>

text \<open>The calls of \<^verbatim>\<open>_download_file\<close> in a run, with their arguments, in order.\<close>

fun call_of :: "event \<Rightarrow> (json \<times> path \<times> string \<times> bool) option" where
  "call_of (Download_file_call url dir filename_prefix use_extension) =
     Some (url, dir, filename_prefix, use_extension)"
| "call_of e = None"

definition calls :: "event list \<Rightarrow> (json \<times> path \<times> string \<times> bool) list" where
  "calls evs = List.map_filter call_of evs"

text \<open>An event that is no part of a download: no call, no GET of an asset, no file body.\<close>

fun quiet :: "event \<Rightarrow> bool" where
  "quiet (Download_file_call url dir filename_prefix use_extension) = False"
| "quiet (Requests_get url) = False"
| "quiet (Write_bytes file body) = False"
| "quiet e = True"

fun is_object :: "json \<Rightarrow> bool" where
  "is_object (JObj kvs) = True"
| "is_object v = False"

text \<open>The value of a field of a content item, \<^verbatim>\<open>None\<close> if it has none.\<close>

fun field :: "json \<Rightarrow> string \<Rightarrow> json" where
  "field (JObj kvs) key = (case map_of kvs key of None \<Rightarrow> JNull | Some v \<Rightarrow> v)"
| "field v key = JNull"

text \<open>
  The direct resource URL of a content item: the value of \<^verbatim>\<open>url\<close> if that is not
  empty, else the value of \<^verbatim>\<open>file_url\<close>.
\<close>

definition direct_url :: "json \<Rightarrow> json" where
  "direct_url item =
     (if truthy (field item ''url'') then field item ''url'' else field item ''file_url'')"

text \<open>The URLs extracted from the HTML fragment of a content item.\<close>

definition item_urls :: "json \<Rightarrow> string list" where
  "item_urls item =
     (case field item ''content_html'' of JStr h \<Rightarrow> extract_urls_from_html h | _ \<Rightarrow> [])"

text \<open>A URL whose file name \<^verbatim>\<open>Path(urlparse(url).path).name\<close> can be taken, and that name.\<close>

definition accepted :: "env \<Rightarrow> string \<Rightarrow> bool" where
  "accepted env url = (case urlparse_path env url of Inl e \<Rightarrow> False | Inr p \<Rightarrow> True)"

definition name_of :: "env \<Rightarrow> string \<Rightarrow> string" where
  "name_of env url = (case urlparse_path env url of Inl e \<Rightarrow> [] | Inr p \<Rightarrow> path_name p)"

text \<open>The print of the asset loop for a URL it could not handle.\<close>

definition asset_failure :: "event \<Rightarrow> bool" where
  "asset_failure e =
     (case e of Print m \<Rightarrow> prefix ''    Failed to download asset '' m | _ \<Rightarrow> False)"

text \<open>
  The calls the first loop makes for the content items \<open>items\<close>, numbered from \<open>i\<close>;
  the calls the asset loop makes for the URLs \<open>urls\<close> with the counter at \<open>c\<close>; a
  content item whose HTML fragment, if it has one, is a string.
\<close>

definition direct_calls :: "path \<Rightarrow> nat \<Rightarrow> json list \<Rightarrow> (json \<times> path \<times> string \<times> bool) list" where
  "direct_calls dir i items =
     concat (map (\<lambda>(j, item).
                    if truthy (direct_url item)
                    then [(direct_url item, dir, ''content_'' @ dec j, True)] else [])
                 (enumerate i items))"

definition asset_calls :: "env \<Rightarrow> path \<Rightarrow> nat \<Rightarrow> string list \<Rightarrow> (json \<times> path \<times> string \<times> bool) list" where
  "asset_calls env dir c urls =
     map (\<lambda>(k, url). (JStr url, dir, asset_prefix k (name_of env url), False))
         (enumerate c (filter (accepted env) urls))"

definition html_ok :: "json \<Rightarrow> bool" where
  "html_ok item =
     (is_object item \<and>
      (case field item ''content_html'' of JStr h \<Rightarrow> True | v \<Rightarrow> \<not> truthy v))"

text \<open>
  The events of the API client (requests, prints, pauses) and the events of the two
  download loops (calls, GETs, file bodies, prints).
\<close>

fun api_event :: "event \<Rightarrow> bool" where
  "api_event (Print m) = True"
| "api_event (Sleep n) = True"
| "api_event (Session_request method url kwargs) = True"
| "api_event e = False"

fun loop_event :: "event \<Rightarrow> bool" where
  "loop_event (Download_file_call url dir filename_prefix use_extension) = True"
| "loop_event (Requests_get url) = True"
| "loop_event (Write_bytes file body) = True"
| "loop_event (Print m) = True"
| "loop_event e = False"

text \<open>The files whose bodies a run writes, in order.\<close>

fun written_file :: "event \<Rightarrow> path option" where
  "written_file (Write_bytes file body) = Some file"
| "written_file e = None"

definition writes :: "event list \<Rightarrow> path list" where
  "writes evs = List.map_filter written_file evs"

text \<open>
  The statements of \<^verbatim>\<open>download_lesson_content\<close> behind the fetch of the content items,
  and its statements between the lesson directory and that fetch.
\<close>

definition lesson_tail :: "env \<Rightarrow> path \<Rightarrow> json list \<Rightarrow> unit run" where
  "lesson_tail env lesson_dir content_items =
     bnd (if content_items \<noteq> []
          then write_json env (lesson_dir @ [''content_items.json'']) (JList content_items)
          else ret ()) (\<lambda>_.
     bnd (download_direct_files env lesson_dir 0 content_items) (\<lambda>_.
     bnd (download_html_assets env lesson_dir 0 content_items) (\<lambda>_.
     emit (Sleep 200))))"

definition lesson_head :: "env \<Rightarrow> json \<Rightarrow> json \<Rightarrow> path \<Rightarrow> unit run" where
  "lesson_head env lesson_id lesson_title lesson_dir =
     bnd (do_mkdir env lesson_dir) (\<lambda>_.
     bnd (emit (Print (''  Downloading lesson: '' @ py_str (py_repr env) lesson_title))) (\<lambda>_.
     bnd (get_lesson_details env lesson_id) (\<lambda>lesson_details.
     write_json env (lesson_dir @ [''lesson_metadata.json'']) lesson_details)))"

subsection \<open>The files of a lesson\<close>

text \<open>The files a run writes with \<^verbatim>\<open>json.dump\<close>, in order.\<close>

fun json_file :: "event \<Rightarrow> path option" where
  "json_file (Write_json file obj) = Some file"
| "json_file e = None"

definition json_files :: "event list \<Rightarrow> path list" where
  "json_files evs = List.map_filter json_file evs"

text \<open>
  The endpoint of the content items of a lesson, the warning \<^verbatim>\<open>get_lesson_content\<close>
  prints when they cannot be fetched, and the events of a lesson up to the write of
  \<^verbatim>\<open>lesson_metadata.json\<close>, \<open>d_evs\<close> being the events of the request for the details.
\<close>

definition content_endpoint :: "env \<Rightarrow> json \<Rightarrow> string" where
  "content_endpoint env lesson_id =
     ''/v1/lessons/'' @ py_str (py_repr env) lesson_id @ ''/content-items''"

definition content_warning :: "env \<Rightarrow> json \<Rightarrow> event" where
  "content_warning env lesson_id =
     Print (''Warning: Could not fetch content items for lesson '' @
            py_str (py_repr env) lesson_id)"

definition head_events :: "env \<Rightarrow> json \<Rightarrow> path \<Rightarrow> event list \<Rightarrow> json \<Rightarrow> event list" where
  "head_events env title dir d_evs details =
     Mkdir dir # Print (''  Downloading lesson: '' @ py_str (py_repr env) title) # d_evs @
     [Write_json (dir @ [''lesson_metadata.json'']) details]"

subsection \<open>Lesson \<^verbatim>\<open>L1\<close> of the small world\<close>

text \<open>The directory of the lesson and the events of its download.\<close>

definition lesson1_dir :: path where
  "lesson1_dir = [''downloads'', ''course_c1'', ''Intro Part 12_L1'']"

definition lesson1_events :: "event list" where
  "lesson1_events =
     [Mkdir lesson1_dir,
      Print ''  Downloading lesson: Intro: Part 1/2?'',
      Session_request ''GET'' ''https://api.skilljar.com/v1/lessons/L1'' [],
      Write_json (lesson1_dir @ [''lesson_metadata.json''])
        (JObj [(''id'', JStr ''L1''), (''order'', JInt 1)]),
      Session_request ''GET'' ''https://api.skilljar.com/v1/lessons/L1/content-items''
        [(''page'', JInt 1)],
      Write_json (lesson1_dir @ [''content_items.json'']) (JList [item0, item1, item2]),
      Download_file_call (JStr ''https://cdn.example/intro.mp4'') lesson1_dir ''content_0'' True,
      Requests_get ''https://cdn.example/intro.mp4'',
      Write_bytes (lesson1_dir @ [''content_0.mp4'']) ''abcd'',
      Print ''    Downloaded: content_0.mp4'',
      Download_file_call (JStr ''https://cdn.example/logo'') lesson1_dir ''content_1'' True,
      Requests_get ''https://cdn.example/logo'',
      Write_bytes (lesson1_dir @ [''content_1.jpg'']) ''png'',
      Print ''    Downloaded: content_1.jpg'',
      Download_file_call (JStr ''http://a/b'') lesson1_dir ''asset_0_b'' False,
      Requests_get ''http://a/b'',
      Write_bytes (lesson1_dir @ [''asset_0_b'']) ''b'',
      Print ''    Downloaded: asset_0_b'',
      Download_file_call (JStr ''http://a/b'') lesson1_dir ''asset_1_b'' False,
      Requests_get ''http://a/b'',
      Write_bytes (lesson1_dir @ [''asset_1_b'']) ''b'',
      Print ''    Downloaded: asset_1_b'',
      Print ''    Failed to download asset https://[: Invalid IPv6 URL'',
      Download_file_call (JStr ''http://a/c.pdf'') lesson1_dir ''asset_2_c.pdf'' False,
      Requests_get ''http://a/c.pdf'',
      Print ''    Error downloading http://a/c.pdf: 404 Client Error'',
      Sleep 200]"

subsection \<open>Calls by file name prefix\<close>

text \<open>
  A call of \<^verbatim>\<open>_download_file\<close> with its arguments \<^verbatim>\<open>url\<close>, \<^verbatim>\<open>output_dir\<close>,
  \<^verbatim>\<open>filename_prefix\<close> and \<^verbatim>\<open>use_extension\<close>; the name prefix of the direct content file
  of the content item with index \<open>i\<close>; the URLs extracted from the HTML fragments of
  all content items of a lesson, in order.
\<close>

type_synonym call = "json \<times> path \<times> string \<times> bool"

definition prefix_of :: "call \<Rightarrow> string" where
  "prefix_of c = fst (snd (snd c))"

definition uses_extension :: "call \<Rightarrow> bool" where
  "uses_extension c = snd (snd (snd c))"

definition content_prefix :: "nat \<Rightarrow> string" where
  "content_prefix i = ''content_'' @ dec i"

definition lesson_urls :: "json list \<Rightarrow> string list" where
  "lesson_urls items = concat (map item_urls items)"

section \<open>Properties\<close>

subsection \<open>Paths\<close>

lemma split_on_not_Nil: "split_on c s \<noteq> []"
  by (induction s) (auto split: list.splits)

lemma split_on_absent: "c \<notin> set s \<Longrightarrow> split_on c s = [s]"
  by (induction s) auto

lemma path_root_relative: "CHR ''/'' \<notin> set (take 1 p) \<Longrightarrow> path_root p = []"
  by (cases p) (auto simp: path_root_def)

lemma joinpath_part:
  assumes "CHR ''/'' \<notin> set name" and "name \<noteq> []" and "name \<noteq> ''.''"
  shows "joinpath dir name = dir @ [name]"
proof -
  from assms(1) have "CHR ''/'' \<notin> set (take 1 name)" by (cases name) auto
  then have "path_root name = []" by (rule path_root_relative)
  with assms show ?thesis
    by (simp add: joinpath_def path_parts_def split_on_absent)
qed

subsection \<open>Lesson directory names\<close>

lemma keep_safe_chars:
  "keep_safe (map (\<lambda>c. JStr [c]) t) = Inr (filter keep_char t)"
  by (induction t) (auto simp: keep_char_def str_isalnum_def)

lemma isspace_keep_char: "keep_char c \<Longrightarrow> isspace c = (c = CHR '' '')"
proof -
  assume k: "keep_char c"
  have sp: "isspace (CHR '' '')" by (simp add: isspace_def)
  have "\<not> isspace (CHR ''-'')" "\<not> isspace (CHR ''_'')" by (simp_all add: isspace_def)
  moreover have "isalnum c \<Longrightarrow> \<not> isspace c"
    by (auto simp: isalnum_def isspace_def Let_def)
  moreover have "isalnum c \<Longrightarrow> c \<noteq> CHR '' ''"
    by (auto simp: isalnum_def Let_def)
  ultimately show ?thesis using k sp unfolding keep_char_def by blast
qed

lemma rstrip_kept: "rstrip (filter keep_char t) = sanitized t"
proof -
  have "dropWhile isspace (rev (filter keep_char t)) =
        dropWhile (\<lambda>c. c = CHR '' '') (rev (filter keep_char t))"
    by (rule dropWhile_cong) (auto simp: isspace_keep_char)
  then show ?thesis by (simp add: rstrip_def sanitized_def)
qed

lemma safe_title_of_string: "safe_title_of (JStr t) = Inr (sanitized t)"
  by (simp add: safe_title_of_def keep_safe_chars rstrip_kept)

lemma sanitized_example: "sanitized ''Intro: Part 1/2?'' = ''Intro Part 12''"
  by code_simp

lemma sanitized_kept: "c \<in> set (sanitized t) \<Longrightarrow> keep_char c"
  by (auto simp: sanitized_def dest: set_dropWhileD)

lemma slash_not_kept: "\<not> keep_char CHR ''/''"
  by (simp add: keep_char_def isalnum_def)

lemma directory_name_relative: "path_root (directory_name t i) = []"
proof (rule path_root_relative)
  have "take 1 (directory_name t i) = take 1 (sanitized t) \<or>
        take 1 (directory_name t i) = ''_''"
    by (cases "sanitized t") (simp_all add: directory_name_def)
  moreover have "CHR ''/'' \<notin> set (take 1 (sanitized t))"
    using sanitized_kept [of "CHR ''/''" t] slash_not_kept by (auto dest: in_set_takeD)
  ultimately show "CHR ''/'' \<notin> set (take 1 (directory_name t i))" by auto
qed

lemma directory_name_part:
  assumes "CHR ''/'' \<notin> set i"
  shows "joinpath dir (directory_name t i) = dir @ [directory_name t i]"
proof (rule joinpath_part)
  show "CHR ''/'' \<notin> set (directory_name t i)"
    using assms sanitized_kept [of "CHR ''/''" t] slash_not_kept
    by (auto simp: directory_name_def)
  show "directory_name t i \<noteq> []" by (simp add: directory_name_def)
  have "CHR ''_'' \<in> set (directory_name t i)" by (simp add: directory_name_def)
  then show "directory_name t i \<noteq> ''.''" by auto
qed

lemma directory_name_example:
  "directory_name ''Intro: Part 1/2?'' ''42'' = ''Intro Part 12_42''"
  by code_simp

text \<open>
  C4 (as amended). For a lesson whose \<^verbatim>\<open>id\<close> is the string \<open>i\<close> and whose \<^verbatim>\<open>title\<close> is
  the string \<open>t\<close>, let \<open>n\<close> be \<open>t\<close> with every character removed that is not
  alphanumeric, a space, a hyphen or an underscore, then with its trailing spaces
  trimmed, followed by an underscore and \<open>i\<close>. The lesson directory is the output
  directory extended by the parts of \<open>n\<close> as a path. If \<open>i\<close> has no slash, \<open>n\<close> is one
  part: the lesson directory is the directory named \<open>n\<close> in the output directory.
  (The source trims every trailing white-space character; after the removal only
  spaces are left to trim.)
\<close>

theorem lesson_directory_name:
  assumes "map_of kvs ''id'' = Some (JStr i)" and "map_of kvs ''title'' = Some (JStr t)"
  shows "lesson_directory env (JObj kvs) output_dir =
           Inr (JStr i, JStr t, output_dir @ path_parts (directory_name t i)) \<and>
         (CHR ''/'' \<notin> set i \<longrightarrow>
            lesson_directory env (JObj kvs) output_dir =
              Inr (JStr i, JStr t, output_dir @ [directory_name t i])) \<and>
         directory_name t i =
           rev (dropWhile (\<lambda>c. c = CHR '' '') (rev (filter keep_char t))) @ ''_'' @ i"
proof -
  have d: "lesson_directory env (JObj kvs) output_dir =
             Inr (JStr i, JStr t, joinpath output_dir (directory_name t i))"
    using assms by (simp add: lesson_directory_def safe_title_of_string directory_name_def)
  have "joinpath output_dir (directory_name t i) = output_dir @ path_parts (directory_name t i)"
    by (simp add: joinpath_def directory_name_relative)
  with d directory_name_part [of i output_dir t] show ?thesis
    by (simp add: directory_name_def sanitized_def)
qed

theorem lesson_directory_name_witness:
  "lesson_directory offline
     (JObj [(''id'', JStr ''42''), (''title'', JStr ''Intro: Part 1/2?'')])
     [''downloads'', ''course_7''] =
   Inr (JStr ''42'', JStr ''Intro: Part 1/2?'',
        [''downloads'', ''course_7'', ''Intro Part 12_42''])"
proof -
  have a: "map_of [(''id'', JStr ''42''), (''title'', JStr ''Intro: Part 1/2?'')] ''id'' =
             Some (JStr ''42'')"
    by simp
  have b: "map_of [(''id'', JStr ''42''), (''title'', JStr ''Intro: Part 1/2?'')] ''title'' =
             Some (JStr ''Intro: Part 1/2?'')"
    by simp
  have c: "CHR ''/'' \<notin> set ''42''" by simp
  note t = lesson_directory_name [OF a b, of offline "[''downloads'', ''course_7'']"]
  from t [THEN conjunct2, THEN conjunct1, rule_format, OF c]
  show ?thesis by (simp only: directory_name_example append.simps)
qed

text \<open>
  The claim as it was stated names the lesson directory by that text for every id.
  The id is not sanitised and the text is joined to the output directory as a path:
  for the id \<^verbatim>\<open>x/y\<close> and the title \<^verbatim>\<open>T\<close> the lesson directory is the directory \<^verbatim>\<open>y\<close> in the
  directory \<^verbatim>\<open>T_x\<close>, and its name is not \<^verbatim>\<open>T_x/y\<close>.
\<close>

theorem lesson_id_with_slash_counterexample:
  "lesson_directory offline (JObj [(''id'', JStr ''x/y''), (''title'', JStr ''T'')]) [''d''] =
     Inr (JStr ''x/y'', JStr ''T'', [''d'', ''T_x'', ''y'']) \<and>
   directory_name ''T'' ''x/y'' = ''T_x/y'' \<and>
   last [''d'', ''T_x'', ''y''] \<noteq> directory_name ''T'' ''x/y''"
  by code_simp

subsection \<open>Markup asset extractor\<close>






























subsection \<open>File names of downloads\<close>

lemma contains_iff: "contains sub s = occurs_in sub s"
proof (induction s)
  case Nil
  show ?case by (auto simp: occurs_in_def)
next
  case (Cons x xs)
  show ?case
  proof
    assume "contains sub (x # xs)"
    then consider "prefix sub (x # xs)" | "contains sub xs" by auto
    then show "occurs_in sub (x # xs)"
    proof cases
      case 1
      then obtain post where "x # xs = sub @ post" by (auto simp: prefix_def)
      then have "x # xs = [] @ sub @ post" by simp
      then show ?thesis unfolding occurs_in_def by blast
    next
      case 2
      with Cons obtain pre post where "xs = pre @ sub @ post" by (auto simp: occurs_in_def)
      then have "x # xs = (x # pre) @ sub @ post" by simp
      then show ?thesis unfolding occurs_in_def by blast
    qed
  next
    assume "occurs_in sub (x # xs)"
    then obtain pre post where p: "x # xs = pre @ sub @ post" by (auto simp: occurs_in_def)
    show "contains sub (x # xs)"
    proof (cases pre)
      case Nil
      with p have "prefix sub (x # xs)" by (simp add: prefix_def)
      then show ?thesis by simp
    next
      case (Cons y pre')
      with p have "xs = pre' @ sub @ post" by simp
      then have "occurs_in sub xs" unfolding occurs_in_def by blast
      with Cons.IH show ?thesis by simp
    qed
  qed
qed

lemma split_on_present: "c \<in> set s \<Longrightarrow> 2 \<le> length (split_on c s)"
proof (induction s)
  case Nil
  then show ?case by simp
next
  case (Cons x xs)
  show ?case
  proof (cases "x = c")
    case True
    then show ?thesis using split_on_not_Nil [of c xs]
      by (cases "split_on c xs") auto
  next
    case False
    with Cons.prems have "c \<in> set xs" by simp
    from Cons.IH [OF this] False show ?thesis
      by (cases "split_on c xs") auto
  qed
qed

lemma after_last_absent: "c \<notin> set s \<Longrightarrow> after_last c s = s"
proof -
  assume "c \<notin> set s"
  then have "takeWhile (\<lambda>x. x \<noteq> c) (rev s) = rev s"
    by (intro takeWhile_eq_all_conv [THEN iffD2]) auto
  then show ?thesis unfolding after_last_def by (simp only: rev_rev_ident)
qed

lemma after_last_Cons_present: "c \<in> set xs \<Longrightarrow> after_last c (x # xs) = after_last c xs"
  by (simp add: after_last_def takeWhile_append1 [where x = c])

lemma after_last_Cons_sep: "c \<notin> set xs \<Longrightarrow> after_last c (c # xs) = xs"
proof -
  assume "c \<notin> set xs"
  then have "takeWhile (\<lambda>x. x \<noteq> c) (rev xs @ [c]) = rev xs @ takeWhile (\<lambda>x. x \<noteq> c) [c]"
    by (intro takeWhile_append2) auto
  then show ?thesis by (simp add: after_last_def)
qed

lemma last_split_on: "last (split_on c s) = after_last c s"
proof (induction s)
  case Nil
  show ?case by (simp add: after_last_def)
next
  case (Cons x xs)
  show ?case
  proof (cases "c \<in> set xs")
    case True
    from split_on_present [OF True] obtain w v ws where ws: "split_on c xs = w # v # ws"
      by (cases "split_on c xs"; cases "tl (split_on c xs)") auto
    then have "last (split_on c (x # xs)) = last (split_on c xs)" by simp
    with Cons.IH after_last_Cons_present [OF True] show ?thesis by simp
  next
    case False
    show ?thesis
    proof (cases "x = c")
      case True
      with False show ?thesis by (simp add: split_on_absent after_last_Cons_sep)
    next
      case neq: False
      with False have "c \<notin> set (x # xs)" by simp
      from split_on_absent [OF this] after_last_absent [OF this] show ?thesis by simp
    qed
  qed
qed

lemma last_item_split_on: "last_item (split_on c s) = Inr (after_last c s)"
  using split_on_not_Nil [of c s] last_split_on [of c s]
  by (cases "split_on c s") (auto simp: last_item_def)

lemma determine_filename_enabled:
  "determine_filename (JStr u) response filename_prefix True =
     Inr (filename_prefix @ inferred_extension u (content_type response))"
  by (auto simp: determine_filename_def last_item_split_on inferred_extension_def
        extension_by_content_type_def contains_iff Let_def split: option.splits)

lemma determine_filename_disabled:
  "determine_filename url response filename_prefix False = Inr filename_prefix"
  by (simp add: determine_filename_def)

lemma bnd_emit: "bnd (emit ev) f = (fst (f ()), ev # snd (f ()))"
  by (simp add: bnd_def emit_def split: prod.splits)

lemma bnd_lift_Inr: "bnd (lift (Inr x)) f = f x"
  by (simp add: bnd_def lift_def split: prod.splits)

lemma bnd_ret: "bnd (ret x) f = f x"
  by (simp add: bnd_def ret_def split: prod.splits)

lemma download_file_writes:
  assumes "requests_get env u = Inr response"
    and "download_status_error response = None"
    and "determine_filename (JStr u) response filename_prefix use_extension = Inr filename"
    and "write_file env (joinpath output_dir filename) = None"
  shows "Write_bytes (joinpath output_dir filename) (concat (chunks response))
           \<in> set (snd (download_file env (JStr u) output_dir filename_prefix use_extension))"
  using assms
  by (simp add: download_file_def bnd_emit bnd_lift_Inr bnd_ret catch_def Let_def
        split: prod.splits sum.splits option.splits)


lemma after_last_append_present:
  "c \<in> set p \<Longrightarrow> after_last c (pre @ p) = after_last c p"
  by (simp add: after_last_def takeWhile_append1 [where x = c])

lemma trailing_segment_of_path:
  assumes "CHR ''?'' \<notin> set u" "CHR ''#'' \<notin> set u" "url_path u \<noteq> []"
  shows "after_last CHR ''/'' u = after_last CHR ''/'' (url_path u)"
proof -
  define as where "as = (if prefix ''https://'' u then drop 8 u
                         else if prefix ''http://'' u then drop 7 u else u)"
  have "as = drop 8 u \<or> as = drop 7 u \<or> as = drop 0 u" unfolding as_def by simp
  then obtain k where as: "as = drop k u" by blast
  have sub: "set as \<subseteq> set u" unfolding as by (rule set_drop_subset)
  have nq: "c \<noteq> CHR ''?'' \<and> c \<noteq> CHR ''#''" if "c \<in> set as" for c
    using that sub assms(1,2) by auto
  have 1: "dropWhile (\<lambda>c. c \<notin> set ''/?#'') as = dropWhile (\<lambda>c. c \<noteq> CHR ''/'') as"
    by (rule dropWhile_cong) (use nq in auto)
  have "takeWhile (\<lambda>c. c \<notin> set ''?#'') (dropWhile (\<lambda>c. c \<noteq> CHR ''/'') as) =
        dropWhile (\<lambda>c. c \<noteq> CHR ''/'') as"
    by (intro takeWhile_eq_all_conv [THEN iffD2]) (use nq in \<open>auto dest: set_dropWhileD\<close>)
  with 1 have p: "url_path u = dropWhile (\<lambda>c. c \<noteq> CHR ''/'') as"
    unfolding url_path_def as_def [symmetric] Let_def by (simp only:)
  from assms(3) p have "\<not> (hd (url_path u) \<noteq> CHR ''/'')"
    using hd_dropWhile [of "\<lambda>c. c \<noteq> CHR ''/''" as] by simp
  with assms(3) have slash: "CHR ''/'' \<in> set (url_path u)"
    by (cases "url_path u") auto
  have "u = take k u @ as" unfolding as by simp
  also have "as = takeWhile (\<lambda>c. c \<noteq> CHR ''/'') as @ url_path u"
    unfolding p by simp
  finally have u: "u = (take k u @ takeWhile (\<lambda>c. c \<noteq> CHR ''/'') as) @ url_path u"
    by simp
  show ?thesis
    by (subst u) (rule after_last_append_present [OF slash])
qed

lemma occurs_in_code [code]: "occurs_in sub s = contains sub s"
  by (simp add: contains_iff)

lemma demo_intro_mp4:
  "requests_get demo ''https://cdn.example/intro.mp4'' = asset (Some ''video/mp4'') [''ab'', ''cd'']"
  "url_path ''https://cdn.example/intro.mp4'' = ''/intro.mp4''"
  "after_last CHR ''/'' ''/intro.mp4'' = ''intro.mp4''"
  "inferred_extension ''https://cdn.example/intro.mp4'' (Some ''video/mp4'') = ''.mp4''"
  "inferred_extension ''https://cdn.example/logo'' (Some ''image/png'') = ''.jpg''"
  "inferred_extension ''https://cdn.example/blob'' None = []"
  "write_file demo [''lesson'', ''content_0.mp4''] = None"
  "joinpath [''lesson''] ''content_0.mp4'' = [''lesson'', ''content_0.mp4'']"
  by code_simp+

text \<open>
  C5 (as amended). With extension inference enabled and a string for the URL, the file
  name is the prefix followed by the extension taken from the text behind the last
  \<^verbatim>\<open>/\<close> of the URL if that text has a dot (the text behind its last dot), else taken
  from the content-type header, lower-cased, by the first substring test that holds
  (\<^verbatim>\<open>video\<close> gives \<^verbatim>\<open>.mp4\<close>, \<^verbatim>\<open>pdf\<close> gives \<^verbatim>\<open>.pdf\<close>, \<^verbatim>\<open>image\<close> gives \<^verbatim>\<open>.jpg\<close>), else
  nothing. With extension inference disabled the file name is the prefix. For a URL
  that has a path and neither query nor fragment, the text behind the last \<^verbatim>\<open>/\<close> is
  the trailing segment of its path. When the request succeeds and the file can be
  written, the body is written under that name in the output directory (the file
  name is joined to the output directory as a path; a name without a slash that is
  neither empty nor a single dot is one part of it).
\<close>

theorem determine_filename_inference:
  "determine_filename (JStr u) response filename_prefix True =
     Inr (filename_prefix @ inferred_extension u (content_type response)) \<and>
   determine_filename url response filename_prefix False = Inr filename_prefix \<and>
   (CHR ''?'' \<notin> set u \<longrightarrow> CHR ''#'' \<notin> set u \<longrightarrow> url_path u \<noteq> [] \<longrightarrow>
      after_last CHR ''/'' u = after_last CHR ''/'' (url_path u)) \<and>
   (requests_get env u = Inr response \<longrightarrow> download_status_error response = None \<longrightarrow>
    determine_filename (JStr u) response filename_prefix use_extension = Inr filename \<longrightarrow>
    write_file env (joinpath output_dir filename) = None \<longrightarrow>
      Write_bytes (joinpath output_dir filename) (concat (chunks response))
        \<in> set (snd (download_file env (JStr u) output_dir filename_prefix use_extension))) \<and>
   (CHR ''/'' \<notin> set filename \<longrightarrow> filename \<noteq> [] \<longrightarrow> filename \<noteq> ''.'' \<longrightarrow>
      joinpath output_dir filename = output_dir @ [filename])"
  using determine_filename_enabled determine_filename_disabled trailing_segment_of_path
    download_file_writes joinpath_part
  by blast

theorem determine_filename_inference_witness:
  "determine_filename (JStr ''https://cdn.example/intro.mp4'')
     \<lparr> download_status_error = None, content_type = Some ''video/mp4'',
       chunks = [''ab'', ''cd''], stream_error = None \<rparr> ''content_0'' True =
     Inr ''content_0.mp4'' \<and>
   determine_filename (JStr ''https://cdn.example/logo'')
     \<lparr> download_status_error = None, content_type = Some ''image/png'',
       chunks = [''png''], stream_error = None \<rparr> ''content_0'' True =
     Inr ''content_0.jpg'' \<and>
   determine_filename (JStr ''https://cdn.example/blob'')
     \<lparr> download_status_error = None, content_type = None,
       chunks = [''raw''], stream_error = None \<rparr> ''content_0'' True =
     Inr ''content_0'' \<and>
   determine_filename (JStr ''http://a/b'')
     \<lparr> download_status_error = None, content_type = Some ''text/plain'',
       chunks = [''b''], stream_error = None \<rparr> ''asset_0_b'' False =
     Inr ''asset_0_b'' \<and>
   after_last CHR ''/'' ''https://cdn.example/intro.mp4'' = ''intro.mp4'' \<and>
   Write_bytes [''lesson'', ''content_0.mp4''] ''abcd''
     \<in> set (snd (download_file demo (JStr ''https://cdn.example/intro.mp4'') [''lesson'']
                  ''content_0'' True))"
proof -
  let ?mp4 = "\<lparr> download_status_error = None, content_type = Some ''video/mp4'',
       chunks = [''ab'', ''cd''], stream_error = None \<rparr>"
  let ?png = "\<lparr> download_status_error = None, content_type = Some ''image/png'',
       chunks = [''png''], stream_error = None \<rparr>"
  let ?raw = "\<lparr> download_status_error = None, content_type = None,
       chunks = [''raw''], stream_error = None \<rparr>"
  let ?txt = "\<lparr> download_status_error = None, content_type = Some ''text/plain'',
       chunks = [''b''], stream_error = None \<rparr>"
  note mp4 = determine_filename_inference
    [of "''https://cdn.example/intro.mp4''" ?mp4 "''content_0''" "JStr ''http://a/b''"
        demo True "''content_0.mp4''" "[''lesson'']"]
  note png = determine_filename_inference
    [of "''https://cdn.example/logo''" ?png "''content_0''" "JStr ''http://a/b''"
        demo True "''content_0.jpg''" "[''lesson'']"]
  note raw = determine_filename_inference
    [of "''https://cdn.example/blob''" ?raw "''content_0''" "JStr ''http://a/b''"
        demo True "''content_0''" "[''lesson'']"]
  note plain = determine_filename_inference
    [of "''https://cdn.example/blob''" ?txt "''asset_0_b''" "JStr ''http://a/b''"
        demo True "''content_0''" "[''lesson'']"]
  have 1: "determine_filename (JStr ''https://cdn.example/intro.mp4'') ?mp4 ''content_0'' True =
             Inr ''content_0.mp4''"
    using mp4 demo_intro_mp4(4) by simp
  have 2: "determine_filename (JStr ''https://cdn.example/logo'') ?png ''content_0'' True =
             Inr ''content_0.jpg''"
    using png demo_intro_mp4(5) by simp
  have 3: "determine_filename (JStr ''https://cdn.example/blob'') ?raw ''content_0'' True =
             Inr ''content_0''"
    using raw demo_intro_mp4(6) by simp
  have 4: "determine_filename (JStr ''http://a/b'') ?txt ''asset_0_b'' False = Inr ''asset_0_b''"
    using plain by simp
  have 5: "after_last CHR ''/'' ''https://cdn.example/intro.mp4'' = ''intro.mp4''"
    using mp4 demo_intro_mp4(2,3) by simp
  have 6: "Write_bytes [''lesson'', ''content_0.mp4''] ''abcd''
     \<in> set (snd (download_file demo (JStr ''https://cdn.example/intro.mp4'') [''lesson'']
                  ''content_0'' True))"
    using mp4 1 demo_intro_mp4(1,7,8) by (simp add: asset_def)
  from 1 2 3 4 5 6 show ?thesis by blast
qed

text \<open>
  The claim as it was stated maps \<^verbatim>\<open>video/*\<close> to \<^verbatim>\<open>.mp4\<close> and reads the trailing segment
  of the URL's path. A PDF whose content-type header mentions \<^verbatim>\<open>video\<close> in a parameter
  is saved as \<^verbatim>\<open>.mp4\<close>, and for a URL with a query the extension is read from the
  query.
\<close>

theorem claimed_extension_counterexample:
  "determine_filename (JStr ''https://a/b'')
     \<lparr> download_status_error = None,
       content_type = Some ''application/pdf; name=video.pdf'',
       chunks = [], stream_error = None \<rparr> ''content_0'' True = Inr ''content_0.mp4'' \<and>
   claimed_extension ''https://a/b'' (Some ''application/pdf; name=video.pdf'') = ''.pdf'' \<and>
   determine_filename (JStr ''https://a/f.mp4?v=1.2'')
     \<lparr> download_status_error = None, content_type = None,
       chunks = [], stream_error = None \<rparr> ''content_0'' True = Inr ''content_0.2'' \<and>
   claimed_extension ''https://a/f.mp4?v=1.2'' None = ''.mp4''"
  by code_simp

subsection \<open>Pagination\<close>

lemma page_results_object:
  assumes "map_of obj ''results'' = Some (JList items)"
  shows "page_results (JObj obj) =
           Inr (JList items, \<exists>v. map_of obj ''next'' = Some v \<and> v \<noteq> JNull)"
proof -
  from assms have "''results'' \<in> set (map fst obj)"
    by (metis map_of_eq_None_iff option.distinct(1) set_map)
  then show ?thesis using assms
    by (auto simp: page_results_def split: option.splits)
qed

lemma fetch_page_served:
  assumes "serves_page env endpoint params k items has_next"
  shows "fetch_page env endpoint params k =
           (Inr (JList items, has_next), [page_request env endpoint params k])"
proof -
  from assms obtain obj where
    r: "session_request env ''GET'' (urljoin env (base_url env) endpoint)
               (AList.update ''page'' (JInt (int k)) params) =
             Inr \<lparr> status_error = None, json_body = Inr (JObj obj) \<rparr>" and
    o: "map_of obj ''results'' = Some (JList items)" and
    h: "has_next = (\<exists>v. map_of obj ''next'' = Some v \<and> v \<noteq> JNull)"
    unfolding serves_page_def by blast
  have "make_request env ''GET'' endpoint (AList.update ''page'' (JInt (int k)) params) =
          (Inr \<lparr> status_error = None, json_body = Inr (JObj obj) \<rparr>,
           [page_request env endpoint params k])"
    by (simp add: make_request_def Let_def r bnd_emit bnd_lift_Inr catch_request_def ret_def
          page_request_def)
  then show ?thesis
    using page_results_object [OF o] h
    by (simp add: fetch_page_def Let_def bnd_def lift_def)
qed

lemma paginate_pages:
  assumes "k \<le> n"
    and "\<And>j. k \<le> j \<Longrightarrow> j < n \<Longrightarrow> serves_page env endpoint params j (items j) True \<and> items j \<noteq> []"
    and "serves_page env endpoint params n (items n) has_next"
    and "\<not> has_next \<or> items n = []"
  shows "paginate env endpoint params k acc evs =
           Some (Inr (acc @ concat (map items [k ..< Suc n])),
                 evs @ page_events env endpoint params k n)"
  using assms
proof (induction "n - k" arbitrary: k acc evs)
  case 0
  then have kn: "k = n" by simp
  from fetch_page_served [OF "0.prems"(3)] "0.prems"(4) show ?case
    unfolding kn
    by (subst paginate.simps) (auto simp: page_events_def)
next
  case (Suc d)
  then have lt: "k < n" by simp
  from Suc.prems(2) [OF le_refl lt] have
    s: "serves_page env endpoint params k (items k) True" and ne: "items k \<noteq> []" by auto
  have IH: "paginate env endpoint params (k + 1) (acc @ items k)
              (evs @ [page_request env endpoint params k] @ [Sleep 100]) =
            Some (Inr ((acc @ items k) @ concat (map items [k + 1 ..< Suc n])),
                  (evs @ [page_request env endpoint params k] @ [Sleep 100]) @
                  page_events env endpoint params (k + 1) n)"
  proof (rule Suc.hyps(1))
    show "d = n - (k + 1)" using Suc.hyps(2) by simp
    show "k + 1 \<le> n" using lt by simp
    show "serves_page env endpoint params j (items j) True \<and> items j \<noteq> []"
      if "k + 1 \<le> j" "j < n" for j using Suc.prems(2) [of j] that by simp
    show "serves_page env endpoint params n (items n) has_next" by (rule Suc.prems(3))
    show "\<not> has_next \<or> items n = []" by (rule Suc.prems(4))
  qed
  have up: "[k ..< Suc n] = k # [k + 1 ..< Suc n]" using lt by (simp add: upt_rec)
  have up2: "[k ..< n] = k # [k + 1 ..< n]" using lt by (simp add: upt_rec)
  have step: "paginate env endpoint params k acc evs =
              paginate env endpoint params (k + 1) (acc @ items k)
                (evs @ [page_request env endpoint params k] @ [Sleep 100])"
    by (subst paginate.simps) (simp add: fetch_page_served [OF s] ne)
  have c: "concat (map items [k ..< Suc n]) = items k @ concat (map items [k + 1 ..< Suc n])"
    by (subst up) simp
  have e: "page_events env endpoint params k n =
             [page_request env endpoint params k] @ [Sleep 100] @
             page_events env endpoint params (k + 1) n"
    unfolding page_events_def by (subst up2) simp
  show ?case unfolding step IH c e by simp
qed


text \<open>
  C2. If the endpoint serves the pages 1 to \<open>n\<close>, every page before the last names a
  next page and is not empty, and the last page names no next page or is empty, then
  \<^verbatim>\<open>_get_paginated_results\<close> returns; it has requested exactly the pages 1 to \<open>n\<close>, in that
  order, with a pause before each page but the first; and it returns the items of
  all pages, concatenated in the order of the pages.
\<close>

theorem get_paginated_results_pages:
  assumes "1 \<le> n"
    and "\<forall>k. 1 \<le> k \<and> k < n \<longrightarrow>
           serves_page env endpoint params k (items k) True \<and> items k \<noteq> []"
    and "serves_page env endpoint params n (items n) has_next"
    and "\<not> has_next \<or> items n = []"
  shows "get_paginated_results env endpoint params =
           Some (Inr (concat (map items [1 ..< Suc n])), page_events env endpoint params 1 n) \<and>
         filter (\<lambda>e. e \<noteq> Sleep 100) (page_events env endpoint params 1 n) =
           map (page_request env endpoint params) [1 ..< Suc n]"
proof -
  have "paginate env endpoint params 1 [] [] =
          Some (Inr ([] @ concat (map items [1 ..< Suc n])),
                [] @ page_events env endpoint params 1 n)"
    using assms by (intro paginate_pages) auto
  moreover have "filter (\<lambda>e. e \<noteq> Sleep 100)
                   (concat (map (\<lambda>j. [page_request env endpoint params j, Sleep 100]) ks)) =
                 map (page_request env endpoint params) ks" for ks
    by (induction ks) (auto simp: page_request_def)
  then have "filter (\<lambda>e. e \<noteq> Sleep 100) (page_events env endpoint params 1 n) =
               map (page_request env endpoint params) ([1 ..< n] @ [n])"
    by (simp add: page_events_def page_request_def)
  moreover have "[1 ..< n] @ [n] = [1 ..< Suc n]" using assms(1) by simp
  ultimately show ?thesis by (simp add: get_paginated_results_def)
qed

lemma demo_pages:
  "serves_page demo ''/v1/lessons'' [(''course_id'', JStr ''c1'')] 1 [lesson1] True"
  "serves_page demo ''/v1/lessons'' [(''course_id'', JStr ''c1'')] 2 [lesson2] False"
  "serves_page demo ''/v1/lessons'' [(''course_id'', JStr ''c3'')] 1 [] True"
  by (simp_all add: serves_page_def demo_def demo_api_def api_ok_def)

lemma demo_page_events:
  "page_events demo ''/v1/lessons'' [(''course_id'', JStr ''c1'')] 1 2 =
     [Session_request ''GET'' ''https://api.skilljar.com/v1/lessons''
        [(''course_id'', JStr ''c1''), (''page'', JInt 1)],
      Sleep 100,
      Session_request ''GET'' ''https://api.skilljar.com/v1/lessons''
        [(''course_id'', JStr ''c1''), (''page'', JInt 2)]]"
  "page_events demo ''/v1/lessons'' [(''course_id'', JStr ''c3'')] 1 1 =
     [Session_request ''GET'' ''https://api.skilljar.com/v1/lessons''
        [(''course_id'', JStr ''c3''), (''page'', JInt 1)]]"
  "concat (map (\<lambda>k. if k = 1 then [lesson1] else [lesson2]) [1 ..< Suc 2]) = [lesson1, lesson2]"
  "concat (map (\<lambda>k. ([] :: json list)) [1 ..< Suc 1]) = []"
  by code_simp+

theorem get_paginated_results_pages_witness:
  "get_paginated_results demo ''/v1/lessons'' [(''course_id'', JStr ''c1'')] =
     Some (Inr [lesson1, lesson2],
       [Session_request ''GET'' ''https://api.skilljar.com/v1/lessons''
          [(''course_id'', JStr ''c1''), (''page'', JInt 1)],
        Sleep 100,
        Session_request ''GET'' ''https://api.skilljar.com/v1/lessons''
          [(''course_id'', JStr ''c1''), (''page'', JInt 2)]]) \<and>
   get_paginated_results demo ''/v1/lessons'' [(''course_id'', JStr ''c3'')] =
     Some (Inr [],
       [Session_request ''GET'' ''https://api.skilljar.com/v1/lessons''
          [(''course_id'', JStr ''c3''), (''page'', JInt 1)]])"
proof -
  let ?items = "\<lambda>k :: nat. if k = 1 then [lesson1] else [lesson2]"
  have h: "\<forall>k. 1 \<le> k \<and> k < 2 \<longrightarrow>
             serves_page demo ''/v1/lessons'' [(''course_id'', JStr ''c1'')] k (?items k) True \<and>
             ?items k \<noteq> []"
  proof (intro allI impI)
    fix k :: nat assume "1 \<le> k \<and> k < 2"
    then have "k = 1" by arith
    then show "serves_page demo ''/v1/lessons'' [(''course_id'', JStr ''c1'')] k (?items k) True \<and>
               ?items k \<noteq> []"
      using demo_pages(1) by simp
  qed
  have l: "serves_page demo ''/v1/lessons'' [(''course_id'', JStr ''c1'')] 2 (?items 2) False"
    using demo_pages(2) by simp
  have a: "get_paginated_results demo ''/v1/lessons'' [(''course_id'', JStr ''c1'')] =
             Some (Inr [lesson1, lesson2],
                   page_events demo ''/v1/lessons'' [(''course_id'', JStr ''c1'')] 1 2)"
    using get_paginated_results_pages
            [of 2 demo "''/v1/lessons''" "[(''course_id'', JStr ''c1'')]" ?items False, OF _ h l]
          demo_page_events(3)
    by simp
  have e: "\<forall>k. 1 \<le> k \<and> k < (1::nat) \<longrightarrow>
             serves_page demo ''/v1/lessons'' [(''course_id'', JStr ''c3'')] k [] True \<and>
             ([] :: json list) \<noteq> []"
    by simp
  have b: "get_paginated_results demo ''/v1/lessons'' [(''course_id'', JStr ''c3'')] =
             Some (Inr [],
                   page_events demo ''/v1/lessons'' [(''course_id'', JStr ''c3'')] 1 1)"
    using get_paginated_results_pages
            [of 1 demo "''/v1/lessons''" "[(''course_id'', JStr ''c3'')]" "\<lambda>k. []" True,
             OF _ e demo_pages(3)]
          demo_page_events(4)
    by simp
  from a b show ?thesis unfolding demo_page_events(1,2) by simp
qed

subsection \<open>The course loop\<close>

lemma pbnd_emit:
  "pbnd (Some (emit ev)) f = map_option (\<lambda>(r, evs). (r, ev # evs)) (f ())"
  by (auto simp: pbnd_def emit_def split: option.splits)

lemma pbnd_raise: "pbnd (Some (Inl e, evs)) f = Some (Inl e, evs)"
  by (simp add: pbnd_def)

lemma pbnd_value:
  "pbnd (Some (Inr x, evs)) f = map_option (\<lambda>(r, evs'). (r, evs @ evs')) (f x)"
  by (auto simp: pbnd_def split: option.splits)

lemma get_course_lessons_fails:
  assumes "get_paginated_results env ''/v1/lessons'' [(''course_id'', JStr course_id)] =
             Some (Inl (RequestException cause), evs)"
  shows "get_course_lessons env course_id =
           Some (Inl (Exception (fetch_error_message course_id cause)),
                 Print (''Fetching lessons for course '' @ course_id @ ''...'') # evs)"
  using assms
  by (simp add: get_course_lessons_def pbnd_emit catch_request_def raise_def
        fetch_error_message_def)

lemma process_course_fails:
  assumes "get_paginated_results env ''/v1/lessons'' [(''course_id'', JStr course_id)] =
             Some (Inl (RequestException cause), evs)"
    and "mkdir env (joinpath output_path (''course_'' @ course_id)) = None"
  shows "process_course env output_path course_id =
           Some (Inr (), failed_course_events output_path course_id cause evs)"
  using assms(2) get_course_lessons_fails [OF assms(1)]
  by (simp add: process_course_def pbnd_value Let_def do_mkdir_def pcatch_def pbnd_raise
        catch_def emit_def failed_course_events_def)

lemma pcatch_emit_result:
  "pcatch m (\<lambda>e. emit (g e)) = Some (r, evs) \<Longrightarrow> r = Inr ()"
  by (cases m) (auto simp: pcatch_def catch_def emit_def split: prod.splits sum.splits)

lemma process_course_never_raises:
  assumes "process_course env output_path course_id = Some (r, evs)"
  shows "r = Inr ()"
proof -
  from assms obtain evs' where
    "pcatch
       (let course_dir = joinpath output_path (''course_'' @ course_id) in
        pbnd (Some (do_mkdir env course_dir)) (\<lambda>_.
        pbnd (get_course_lessons env course_id) (\<lambda>lessons.
        if lessons = []
        then Some (emit (Print (''  No lessons found for course '' @ course_id)))
        else
          pbnd (Some (emit (Print (''  Found '' @ dec (length lessons) @ '' lessons'')))) (\<lambda>_.
          pbnd (download_lessons env course_dir lessons) (\<lambda>_.
          Some (emit (Print (''  Completed course '' @ course_id))))))))
       (\<lambda>e. emit (Print (''  Error processing course '' @ course_id @ '': '' @ exn_str e))) =
     Some (r, evs')"
    unfolding process_course_def pbnd_emit by auto
  then show ?thesis by (rule pcatch_emit_result)
qed

lemma process_courses_Cons:
  assumes "process_course env output_path course_id = Some (Inr (), evs)"
  shows "process_courses env output_path (course_id # course_ids) =
           map_option (\<lambda>(r, evs'). (r, evs @ evs'))
             (process_courses env output_path course_ids)"
  using assms by (simp add: pbnd_value)

lemma demo_c2:
  "get_paginated_results demo ''/v1/lessons'' [(''course_id'', JStr ''c2'')] =
     Some (Inl (RequestException ''404 Client Error''),
       [Session_request ''GET'' ''https://api.skilljar.com/v1/lessons''
          [(''course_id'', JStr ''c2''), (''page'', JInt 1)],
        Print ''Error making request to https://api.skilljar.com/v1/lessons: 404 Client Error''])"
  "mkdir demo (joinpath [''downloads''] (''course_'' @ ''c2'')) = None"
  "process_courses demo [''downloads''] [''c3''] =
     Some (Inr (),
       [Print (CHR 0x0A # ''Processing course: c3''),
        Mkdir [''downloads'', ''course_c3''],
        Print ''Fetching lessons for course c3...'',
        Session_request ''GET'' ''https://api.skilljar.com/v1/lessons''
          [(''course_id'', JStr ''c3''), (''page'', JInt 1)],
        Print ''  No lessons found for course c3''])"
  by code_simp+


lemma fetch_page_fails:
  assumes "request_fails env endpoint params k cause"
  shows "fetch_page env endpoint params k =
           (Inl (RequestException cause),
            [page_request env endpoint params k,
             Print (''Error making request to '' @ urljoin env (base_url env) endpoint @
                    '': '' @ cause)])"
proof -
  have "make_request env ''GET'' endpoint (AList.update ''page'' (JInt (int k)) params) =
          (Inl (RequestException cause),
            [page_request env endpoint params k,
             Print (''Error making request to '' @ urljoin env (base_url env) endpoint @
                    '': '' @ cause)])"
    using assms unfolding request_fails_def
    by (auto simp: make_request_def Let_def bnd_def emit_def lift_def raise_def
          catch_request_def page_request_def)
  then show ?thesis by (simp add: fetch_page_def Let_def bnd_def)
qed

lemma paginate_skip:
  assumes "k \<le> n"
    and "\<And>j. k \<le> j \<Longrightarrow> j < n \<Longrightarrow> serves_page env endpoint params j (items j) True \<and> items j \<noteq> []"
  shows "paginate env endpoint params k acc evs =
           paginate env endpoint params n (acc @ concat (map items [k ..< n]))
             (evs @ concat (map (\<lambda>j. [page_request env endpoint params j, Sleep 100]) [k ..< n]))"
  using assms
proof (induction "n - k" arbitrary: k acc evs)
  case 0
  then show ?case by simp
next
  case (Suc d)
  then have lt: "k < n" by simp
  from Suc.prems(2) [OF le_refl lt] have
    s: "serves_page env endpoint params k (items k) True" and ne: "items k \<noteq> []" by auto
  have step: "paginate env endpoint params k acc evs =
              paginate env endpoint params (k + 1) (acc @ items k)
                (evs @ [page_request env endpoint params k] @ [Sleep 100])"
    by (subst paginate.simps) (simp add: fetch_page_served [OF s] ne)
  have IH: "paginate env endpoint params (k + 1) (acc @ items k)
              (evs @ [page_request env endpoint params k] @ [Sleep 100]) =
            paginate env endpoint params n
              ((acc @ items k) @ concat (map items [k + 1 ..< n]))
              ((evs @ [page_request env endpoint params k] @ [Sleep 100]) @
               concat (map (\<lambda>j. [page_request env endpoint params j, Sleep 100]) [k + 1 ..< n]))"
  proof (rule Suc.hyps(1))
    show "d = n - (k + 1)" using Suc.hyps(2) by simp
    show "k + 1 \<le> n" using lt by simp
    show "serves_page env endpoint params j (items j) True \<and> items j \<noteq> []"
      if "k + 1 \<le> j" "j < n" for j using Suc.prems(2) [of j] that by simp
  qed
  have up: "[k ..< n] = k # [k + 1 ..< n]" using lt by (simp add: upt_rec)
  show ?case unfolding step IH by (subst (1 2) up) simp
qed

lemma get_paginated_results_fails:
  assumes "1 \<le> n"
    and "\<forall>k. 1 \<le> k \<and> k < n \<longrightarrow>
           serves_page env endpoint params k (items k) True \<and> items k \<noteq> []"
    and "request_fails env endpoint params n cause"
  shows "get_paginated_results env endpoint params =
           Some (Inl (RequestException cause), failed_fetch_events env endpoint params n cause)"
proof -
  have "paginate env endpoint params 1 [] [] =
          paginate env endpoint params n ([] @ concat (map items [1 ..< n]))
            ([] @ concat (map (\<lambda>j. [page_request env endpoint params j, Sleep 100]) [1 ..< n]))"
    using assms(1,2) by (intro paginate_skip) auto
  also have "\<dots> = Some (Inl (RequestException cause),
                      failed_fetch_events env endpoint params n cause)"
    by (subst paginate.simps)
       (simp add: fetch_page_fails [OF assms(3)] failed_fetch_events_def)
  finally show ?thesis by (simp add: get_paginated_results_def)
qed

text \<open>
  C3. If, after \<open>n - 1\<close> pages were served, the request of page \<open>n\<close> of a course's
  lesson list fails in transport or by its HTTP status, then \<^verbatim>\<open>get_course_lessons\<close> raises
  an error whose message holds the course id and the cause; the turn of the course loop
  catches it, prints it and ends normally; and the loop goes on with the courses that
  are left.
\<close>

theorem course_fetch_failure_is_isolated:
  assumes "1 \<le> n"
    and "\<forall>k. 1 \<le> k \<and> k < n \<longrightarrow>
           serves_page env ''/v1/lessons'' [(''course_id'', JStr course_id)] k (items k) True \<and>
           items k \<noteq> []"
    and "request_fails env ''/v1/lessons'' [(''course_id'', JStr course_id)] n cause"
    and "mkdir env (joinpath output_path (''course_'' @ course_id)) = None"
  shows "get_course_lessons env course_id =
           Some (Inl (Exception (fetch_error_message course_id cause)),
                 Print (''Fetching lessons for course '' @ course_id @ ''...'') #
                 failed_fetch_events env ''/v1/lessons'' [(''course_id'', JStr course_id)] n cause) \<and>
         process_course env output_path course_id =
           Some (Inr (), failed_course_events output_path course_id cause
                   (failed_fetch_events env ''/v1/lessons'' [(''course_id'', JStr course_id)] n
                      cause)) \<and>
         process_courses env output_path (course_id # course_ids) =
           map_option
             (\<lambda>(r, evs). (r, failed_course_events output_path course_id cause
                   (failed_fetch_events env ''/v1/lessons'' [(''course_id'', JStr course_id)] n
                      cause) @ evs))
             (process_courses env output_path course_ids)"
proof -
  note f = get_paginated_results_fails [OF assms(1,2,3)]
  note c = process_course_fails [OF f assms(4)]
  from get_course_lessons_fails [OF f] c process_courses_Cons [OF c]
  show ?thesis by blast
qed

lemma demo_c2_fails:
  "request_fails demo ''/v1/lessons'' [(''course_id'', JStr ''c2'')] 1 ''404 Client Error''"
  by (simp add: request_fails_def demo_def demo_api_def)

lemma demo_c2_events:
  "failed_fetch_events demo ''/v1/lessons'' [(''course_id'', JStr ''c2'')] 1 ''404 Client Error'' =
     [Session_request ''GET'' ''https://api.skilljar.com/v1/lessons''
        [(''course_id'', JStr ''c2''), (''page'', JInt 1)],
      Print ''Error making request to https://api.skilljar.com/v1/lessons: 404 Client Error'']"
  "fetch_error_message ''c2'' ''404 Client Error'' =
     ''Could not fetch lessons for course c2: 404 Client Error''"
  "failed_course_events [''downloads''] ''c2'' ''404 Client Error''
     [Session_request ''GET'' ''https://api.skilljar.com/v1/lessons''
        [(''course_id'', JStr ''c2''), (''page'', JInt 1)],
      Print ''Error making request to https://api.skilljar.com/v1/lessons: 404 Client Error''] =
     [Print (CHR 0x0A # ''Processing course: c2''),
      Mkdir [''downloads'', ''course_c2''],
      Print ''Fetching lessons for course c2...'',
      Session_request ''GET'' ''https://api.skilljar.com/v1/lessons''
        [(''course_id'', JStr ''c2''), (''page'', JInt 1)],
      Print ''Error making request to https://api.skilljar.com/v1/lessons: 404 Client Error'',
      Print ''  Error processing course c2: Could not fetch lessons for course c2: 404 Client Error'']"
  by code_simp+

theorem course_fetch_failure_is_isolated_witness:
  "get_course_lessons demo ''c2'' =
     Some (Inl (Exception ''Could not fetch lessons for course c2: 404 Client Error''),
       [Print ''Fetching lessons for course c2...'',
        Session_request ''GET'' ''https://api.skilljar.com/v1/lessons''
          [(''course_id'', JStr ''c2''), (''page'', JInt 1)],
        Print ''Error making request to https://api.skilljar.com/v1/lessons: 404 Client Error'']) \<and>
   process_courses demo [''downloads''] [''c2'', ''c3''] =
     Some (Inr (),
       [Print (CHR 0x0A # ''Processing course: c2''),
        Mkdir [''downloads'', ''course_c2''],
        Print ''Fetching lessons for course c2...'',
        Session_request ''GET'' ''https://api.skilljar.com/v1/lessons''
          [(''course_id'', JStr ''c2''), (''page'', JInt 1)],
        Print ''Error making request to https://api.skilljar.com/v1/lessons: 404 Client Error'',
        Print ''  Error processing course c2: Could not fetch lessons for course c2: 404 Client Error'',
        Print (CHR 0x0A # ''Processing course: c3''),
        Mkdir [''downloads'', ''course_c3''],
        Print ''Fetching lessons for course c3...'',
        Session_request ''GET'' ''https://api.skilljar.com/v1/lessons''
          [(''course_id'', JStr ''c3''), (''page'', JInt 1)],
        Print ''  No lessons found for course c3''])"
proof -
  have e: "\<forall>k. 1 \<le> k \<and> k < (1::nat) \<longrightarrow>
             serves_page demo ''/v1/lessons'' [(''course_id'', JStr ''c2'')] k [] True \<and>
             ([] :: json list) \<noteq> []"
    by simp
  note t = course_fetch_failure_is_isolated
    [of 1 demo "''c2''" "\<lambda>k. []" "''404 Client Error''" "[''downloads'']" "[''c3'']",
     OF _ e demo_c2_fails demo_c2(2)]
  from t show ?thesis
    unfolding demo_c2_events demo_c2(3) by (simp del: process_courses.simps)
qed

subsection \<open>Decimal numbers and asset file names\<close>

lemma digit_char_code: "d < 10 \<Longrightarrow> (of_char (digit_char d) :: nat) = 48 + d"
proof -
  have "\<forall>d \<in> {..< 10}. (of_char (digit_char d) :: nat) = 48 + d"
    by (simp add: lessThan_nat_numeral digit_char_def)
  then show "d < 10 \<Longrightarrow> (of_char (digit_char d) :: nat) = 48 + d" by simp
qed

lemma dec_codes: "c \<in> set (dec n) \<Longrightarrow> 48 \<le> (of_char c :: nat) \<and> (of_char c :: nat) \<le> 57"
proof (induction n arbitrary: c rule: dec.induct)
  case (1 n)
  show ?case
  proof (cases "n < 10")
    case True
    with "1.prems" have "c = digit_char n" by (simp add: dec.simps)
    with digit_char_code [OF True] True show ?thesis by simp
  next
    case False
    with "1.prems" have "c \<in> set (dec (n div 10)) \<or> c = digit_char (n mod 10)"
      by (subst (asm) dec.simps) auto
    then show ?thesis
    proof
      assume "c \<in> set (dec (n div 10))"
      with "1.IH" False show ?thesis by simp
    next
      assume c: "c = digit_char (n mod 10)"
      have "n mod 10 < 10" by simp
      from digit_char_code [OF this] c show ?thesis by simp
    qed
  qed
qed

lemma underscore_not_in_dec: "CHR ''_'' \<notin> set (dec n)"
  using dec_codes [of "CHR ''_''" n] by auto

lemma undec_dec: "undec (dec n) = n"
proof (induction n rule: dec.induct)
  case (1 n)
  show ?case
  proof (cases "n < 10")
    case True
    then show ?thesis by (simp add: dec.simps undec_def digit_char_code)
  next
    case False
    have m: "n mod 10 < 10" by simp
    have "undec (dec n) = 10 * undec (dec (n div 10)) + (of_char (digit_char (n mod 10)) - 48)"
      using False by (subst dec.simps) (simp add: undec_def)
    also have "\<dots> = 10 * (n div 10) + n mod 10"
      using "1.IH" False digit_char_code [OF m] by simp
    finally show ?thesis by simp
  qed
qed

lemma dec_inject: "dec m = dec n \<Longrightarrow> m = n"
  by (metis undec_dec)

lemma takeWhile_separator:
  "c \<notin> set xs \<Longrightarrow> takeWhile (\<lambda>x. x \<noteq> c) (xs @ c # ys) = xs"
  by (induction xs) auto

lemma dec_underscore_inject:
  assumes "dec m @ CHR ''_'' # a = dec n @ CHR ''_'' # b"
  shows "m = n"
proof -
  have "takeWhile (\<lambda>c. c \<noteq> CHR ''_'') (dec m @ CHR ''_'' # a) = dec m"
       "takeWhile (\<lambda>c. c \<noteq> CHR ''_'') (dec n @ CHR ''_'' # b) = dec n"
    by (rule takeWhile_separator [OF underscore_not_in_dec])+
  with assms have "dec m = dec n" by simp
  then show ?thesis by (rule dec_inject)
qed

lemma asset_prefix_inject:
  assumes "asset_prefix k a = asset_prefix l b"
  shows "k = l"
proof -
  consider "a \<noteq> []" "b \<noteq> []" | "a \<noteq> []" "b = []" | "a = []" "b \<noteq> []" | "a = []" "b = []"
    by blast
  then show ?thesis
  proof cases
    case 1
    with assms have "dec k @ CHR ''_'' # a = dec l @ CHR ''_'' # b"
      by (simp add: asset_prefix_def)
    then show ?thesis by (rule dec_underscore_inject)
  next
    case 2
    with assms have "dec k @ CHR ''_'' # a = dec l" by (simp add: asset_prefix_def)
    then have "CHR ''_'' \<in> set (dec l)" by (metis in_set_conv_decomp)
    with underscore_not_in_dec show ?thesis by blast
  next
    case 3
    with assms have "dec k = dec l @ CHR ''_'' # b" by (simp add: asset_prefix_def)
    then have "CHR ''_'' \<in> set (dec k)" by (metis in_set_conv_decomp)
    with underscore_not_in_dec show ?thesis by blast
  next
    case 4
    with assms have "dec k = dec l" by (simp add: asset_prefix_def)
    then show ?thesis by (rule dec_inject)
  qed
qed

subsection \<open>The loops over the content items\<close>

lemma calls_simps [simp]:
  "calls [] = []"
  "calls (Download_file_call u d p x # evs) = (u, d, p, x) # calls evs"
  "calls (Print m # evs) = calls evs"
  "calls (Sleep n # evs) = calls evs"
  "calls (Session_request me ur kw # evs) = calls evs"
  "calls (Mkdir dir # evs) = calls evs"
  "calls (Write_json file obj # evs) = calls evs"
  "calls (Requests_get ur # evs) = calls evs"
  "calls (Write_bytes file body # evs) = calls evs"
  by (simp_all add: calls_def map_filter_simps)

lemma calls_append [simp]: "calls (a @ b) = calls a @ calls b"
  by (induction a) (simp_all add: calls_def map_filter_simps split: option.splits)

lemma bnd_assoc: "bnd (bnd m f) g = bnd m (\<lambda>x. bnd (f x) g)"
  by (auto simp: bnd_def split: prod.splits sum.splits)

lemma fst_bnd:
  "fst (bnd m f) = (case fst m of Inl e \<Rightarrow> Inl e | Inr x \<Rightarrow> fst (f x))"
  by (auto simp: bnd_def split: prod.splits sum.splits)

lemma snd_bnd:
  "snd (bnd m f) = (case fst m of Inl e \<Rightarrow> snd m | Inr x \<Rightarrow> snd m @ snd (f x))"
  by (auto simp: bnd_def split: prod.splits sum.splits)

lemma download_file_result: "fst (download_file env u d p x) = Inr ()"
  by (auto simp: download_file_def bnd_def emit_def catch_def split: prod.splits sum.splits)

lemma download_file_events:
  "\<exists>rest. snd (download_file env u d p x) =
      Download_file_call u d p x # Requests_get (py_str (py_repr env) u) # rest \<and>
      calls rest = [] \<and> list_all (\<lambda>e. \<not> asset_failure e) rest"
  by (auto simp: download_file_def bnd_def emit_def catch_def lift_def raise_def ret_def Let_def
        asset_failure_def
      split: prod.splits sum.splits option.splits)

lemma download_file_calls: "calls (snd (download_file env u d p x)) = [(u, d, p, x)]"
  using download_file_events [of env u d p x] by auto


lemma direct_item:
  assumes "is_object item"
  shows "bnd (lift (py_in ''url'' item)) (\<lambda>has_url.
          bnd (if has_url then ret True else lift (py_in ''file_url'' item)) (\<lambda>has_any.
          if has_any then
            bnd (lift (py_get item ''url'' JNull)) (\<lambda>url.
            bnd (if truthy url then ret url
                 else lift (py_get item ''file_url'' JNull)) (\<lambda>file_url.
            if truthy file_url
            then download_file env file_url dir p True
            else ret ()))
          else ret ())) =
         (if truthy (direct_url item)
          then download_file env (direct_url item) dir p True else ret ())"
proof -
  from assms obtain kvs where item: "item = JObj kvs" by (cases item) auto
  have none: "map_of kvs k = None" if "k \<notin> fst ` set kvs" for k
    using that by (simp add: map_of_eq_None_iff)
  have some: "k \<in> fst ` set kvs" if "map_of kvs k = Some v" for k v
    using that by (metis map_of_eq_None_iff option.distinct(1))
  show ?thesis
    unfolding item
    by (cases "map_of kvs ''url''"; cases "map_of kvs ''file_url''")
       (auto simp: bnd_lift_Inr bnd_ret direct_url_def lift_def [symmetric] none
             dest: some)
qed

lemma direct_files_run:
  assumes "list_all is_object items"
  shows "fst (download_direct_files env dir i items) = Inr () \<and>
         calls (snd (download_direct_files env dir i items)) = direct_calls dir i items"
  using assms
proof (induction items arbitrary: i)
  case Nil
  show ?case by (simp add: ret_def direct_calls_def)
next
  case (Cons item items)
  then have obj: "is_object item" and rest: "list_all is_object items" by simp_all
  note IH = Cons.IH [OF rest, of "Suc i"]
  have step: "download_direct_files env dir i (item # items) =
        bnd (if truthy (direct_url item)
             then download_file env (direct_url item) dir (''content_'' @ dec i) True
             else ret ())
            (\<lambda>_. download_direct_files env dir (Suc i) items)"
    by (simp only: download_direct_files.simps direct_item [OF obj])
  show ?case
  proof (cases "truthy (direct_url item)")
    case True
    then show ?thesis
      unfolding step using IH
      by (simp add: fst_bnd snd_bnd download_file_result download_file_calls
            direct_calls_def)
  next
    case False
    then show ?thesis
      unfolding step using IH by (simp add: bnd_ret direct_calls_def)
  qed
qed

lemma asset_turn:
  "catch
     (bnd (lift (urlparse_path env url)) (\<lambda>parsed_path.
      let original_filename = path_name parsed_path;
          filename_prefix =
            (if original_filename \<noteq> []
             then ''asset_'' @ dec c @ ''_'' @ original_filename
             else ''asset_'' @ dec c) in
      bnd (download_file env (JStr url) dir filename_prefix False) (\<lambda>_.
      ret (c + 1))))
     (\<lambda>e. bnd (emit (Print (''    Failed to download asset '' @ url @ '': '' @ exn_str e)))
            (\<lambda>_. ret c)) =
   (if accepted env url
    then (Inr (Suc c), snd (download_file env (JStr url) dir
                              (asset_prefix c (name_of env url)) False))
    else (Inr c, [Print (''    Failed to download asset '' @ url @ '': '' @
                         exn_str (case urlparse_path env url of Inl e \<Rightarrow> e))]))"
proof (cases "urlparse_path env url")
  case (Inl e)
  then show ?thesis
    by (simp add: accepted_def catch_def bnd_def lift_def emit_def ret_def)
next
  case (Inr parsed)
  let ?p = "if path_name parsed \<noteq> []
            then ''asset_'' @ dec c @ ''_'' @ path_name parsed else ''asset_'' @ dec c"
  obtain evs where d: "download_file env (JStr url) dir ?p False = (Inr (), evs)"
    using download_file_result [of env "JStr url" dir ?p False]
    by (cases "download_file env (JStr url) dir ?p False") auto
  have "catch (bnd (download_file env (JStr url) dir ?p False) (\<lambda>_. ret (c + 1)))
          (\<lambda>e. bnd (emit (Print (''    Failed to download asset '' @ url @ '': '' @ exn_str e)))
            (\<lambda>_. ret c)) = (Inr (Suc c), evs)"
    unfolding d by (simp add: catch_def bnd_def ret_def)
  then show ?thesis
    using Inr d by (simp add: accepted_def name_of_def bnd_lift_Inr Let_def asset_prefix_def)
qed

lemma asset_failure_simps [simp]:
  "\<not> asset_failure (Download_file_call u d p x)"
  "\<not> asset_failure (Requests_get ur)"
  by (simp_all add: asset_failure_def)

lemma asset_failure_Print [simp]:
  "asset_failure (Print (''    Failed to download asset '' @ m))"
  by (simp add: asset_failure_def)

lemma download_assets_run:
  "fst (download_assets env dir c urls) = Inr (c + length (filter (accepted env) urls)) \<and>
   calls (snd (download_assets env dir c urls)) = asset_calls env dir c urls \<and>
   length (filter asset_failure (snd (download_assets env dir c urls))) =
     length (filter (\<lambda>u. \<not> accepted env u) urls)"
proof (induction urls arbitrary: c)
  case Nil
  show ?case by (simp add: ret_def asset_calls_def)
next
  case (Cons url urls)
  show ?case
  proof (cases "accepted env url")
    case True
    obtain rest where
      r: "snd (download_file env (JStr url) dir (asset_prefix c (name_of env url)) False) =
            Download_file_call (JStr url) dir (asset_prefix c (name_of env url)) False #
            Requests_get (py_str (py_repr env) (JStr url)) # rest"
         "calls rest = []" "list_all (\<lambda>e. \<not> asset_failure e) rest"
      using download_file_events by blast
    have nf: "filter asset_failure rest = []"
      using r(3) by (simp add: filter_empty_conv list_all_iff)
    have step: "download_assets env dir c (url # urls) =
        bnd (Inr (Suc c), snd (download_file env (JStr url) dir
                                 (asset_prefix c (name_of env url)) False))
            (\<lambda>c'. download_assets env dir c' urls)"
      using True by (simp only: download_assets.simps asset_turn if_True)
    show ?thesis
      unfolding step using Cons.IH [of "Suc c"] True
      by (simp add: fst_bnd snd_bnd r asset_calls_def nf)
  next
    case False
    have step: "download_assets env dir c (url # urls) =
        bnd (Inr c, [Print (''    Failed to download asset '' @ url @ '': '' @
                         exn_str (case urlparse_path env url of Inl e \<Rightarrow> e))])
            (\<lambda>c'. download_assets env dir c' urls)"
      using False by (simp only: download_assets.simps asset_turn if_False)
    show ?thesis
      unfolding step using Cons.IH [of c] False
      by (simp add: fst_bnd snd_bnd asset_calls_def asset_failure_def)
  qed
qed


lemma download_assets_append:
  "download_assets env dir c (us @ vs) =
     bnd (download_assets env dir c us) (\<lambda>c'. download_assets env dir c' vs)"
proof (induction us arbitrary: c)
  case Nil
  show ?case by (simp add: bnd_ret)
next
  case (Cons u us)
  show ?case
    by (simp only: append_Cons download_assets.simps Cons.IH bnd_assoc)
qed

lemma extract_urls_from_html_Nil [simp]: "extract_urls_from_html [] = []"
  by (simp add: extract_urls_from_html_def)

lemma html_item:
  assumes "html_ok item"
  shows "bnd (lift (py_get item ''content_html'' (JStr []))) (\<lambda>html_content.
         bnd (if truthy html_content then
                bnd (lift (case html_content of
                             JStr h \<Rightarrow> Inr (extract_urls_from_html h)
                           | _ \<Rightarrow> Inl (TypeError ''expected string or bytes-like object'')))
                  (\<lambda>urls. download_assets env dir c urls)
              else ret c) f) =
         bnd (download_assets env dir c (item_urls item)) f"
proof -
  from assms obtain kvs where item: "item = JObj kvs" by (cases item) (auto simp: html_ok_def)
  show ?thesis
  proof (cases "map_of kvs ''content_html''")
    case None
    then show ?thesis
      unfolding item by (simp add: bnd_lift_Inr bnd_ret item_urls_def)
  next
    case (Some v)
    with assms item have v: "(case v of JStr h \<Rightarrow> True | v \<Rightarrow> \<not> truthy v)"
      by (simp add: html_ok_def)
    show ?thesis
    proof (cases v)
      case (JStr h)
      then show ?thesis
        unfolding item using Some
        by (cases "h = []") (simp_all add: bnd_lift_Inr bnd_ret item_urls_def)
    qed (use v Some in \<open>simp_all add: item bnd_lift_Inr bnd_ret item_urls_def\<close>)
  qed
qed

lemma html_assets_run:
  assumes "list_all html_ok items"
  shows "download_html_assets env dir c items =
           download_assets env dir c (concat (map item_urls items))"
  using assms
proof (induction items arbitrary: c)
  case Nil
  show ?case by simp
next
  case (Cons item items)
  then have ok: "html_ok item" and rest: "list_all html_ok items" by simp_all
  have "download_html_assets env dir c (item # items) =
          bnd (download_assets env dir c (item_urls item))
            (\<lambda>c'. download_html_assets env dir c' items)"
    by (simp only: download_html_assets.simps html_item [OF ok])
  also have "\<dots> = bnd (download_assets env dir c (item_urls item))
            (\<lambda>c'. download_assets env dir c' (concat (map item_urls items)))"
    by (simp only: Cons.IH [OF rest])
  finally show ?case by (simp add: download_assets_append)
qed

lemma html_assets_ok:
  "fst (download_html_assets env dir c items) = Inr n \<Longrightarrow> list_all html_ok items"
proof (induction items arbitrary: c n)
  case Nil
  show ?case by simp
next
  case (Cons item items)
  have run: "fst (download_assets env dir c us) = Inr (c + length (filter (accepted env) us))"
    for c us using download_assets_run by blast
  show ?case
  proof (cases "html_ok item")
    case True
    have eq: "download_html_assets env dir c (item # items) =
          bnd (download_assets env dir c (item_urls item))
            (\<lambda>c'. download_html_assets env dir c' items)"
      by (simp only: download_html_assets.simps html_item [OF True])
    from Cons.prems have
      "fst (bnd (download_assets env dir c (item_urls item))
            (\<lambda>c'. download_html_assets env dir c' items)) = Inr n"
      by (simp only: eq)
    then have
      "fst (download_html_assets env dir
              (c + length (filter (accepted env) (item_urls item))) items) = Inr n"
      by (simp add: fst_bnd run)
    from Cons.IH [OF this] True show ?thesis by simp
  next
    case False
    have "\<exists>e. fst (download_html_assets env dir c (item # items)) = Inl e"
    proof (cases item)
      case (JObj kvs)
      with False obtain v where v: "map_of kvs ''content_html'' = Some v"
        "\<not> (case v of JStr h \<Rightarrow> True | v \<Rightarrow> \<not> truthy v)"
        by (cases "map_of kvs ''content_html''") (auto simp: html_ok_def)
      then show ?thesis
        unfolding JObj
        by (cases v) (simp_all add: bnd_lift_Inr fst_bnd lift_def)
    qed (simp_all add: fst_bnd lift_def)
    with Cons.prems show ?thesis by simp
  qed
qed

lemma html_ok_object: "html_ok item \<Longrightarrow> is_object item"
  by (simp add: html_ok_def)

subsection \<open>The run of a lesson\<close>

lemma quiet_calls: "list_all quiet evs \<Longrightarrow> calls evs = []"
proof (induction evs)
  case Nil
  show ?case by simp
next
  case (Cons e evs)
  then show ?case by (cases e) simp_all
qed

lemma make_request_events: "list_all api_event (snd (make_request env method endpoint kwargs))"
  by (auto simp: make_request_def Let_def bnd_def emit_def lift_def raise_def ret_def
        catch_request_def split: sum.splits option.splits prod.splits)

lemma get_lesson_details_events: "list_all api_event (snd (get_lesson_details env lesson_id))"
  using make_request_events [of env "''GET''" "''/v1/lessons/'' @ py_str (py_repr env) lesson_id" "[]"]
  by (auto simp: get_lesson_details_def bnd_def lift_def split: sum.splits prod.splits)

lemma fetch_page_events: "list_all api_event (snd (fetch_page env endpoint params page))"
  using make_request_events
          [of env "''GET''" endpoint "AList.update ''page'' (JInt (int page)) params"]
  by (auto simp: fetch_page_def Let_def bnd_def lift_def split: sum.splits prod.splits)

lemma paginate_events:
  assumes "paginate env endpoint params page acc evs = Some res"
  shows "list_all api_event evs \<longrightarrow> list_all api_event (snd res)"
proof (rule paginate.raw_induct
    [where P = "\<lambda>env endpoint params page acc evs res.
                  list_all api_event evs \<longrightarrow> list_all api_event (snd res)", OF _ assms])
  fix pag :: "env \<Rightarrow> string \<Rightarrow> params \<Rightarrow> nat \<Rightarrow> json list \<Rightarrow> event list \<Rightarrow>
               json list run option"
    and env endpoint params page acc evs res
  assume IH: "\<And>env endpoint params page acc evs res.
      pag env endpoint params page acc evs = Some res \<Longrightarrow>
      list_all api_event evs \<longrightarrow> list_all api_event (snd res)"
  assume body: "(case fetch_page env endpoint params page of
        (Inl e, evs1) \<Rightarrow> Some (Inl e, evs @ evs1)
      | (Inr (results, has_next), evs1) \<Rightarrow>
          (case py_iter results of
             Inl e \<Rightarrow> Some (Inl e, evs @ evs1)
           | Inr items \<Rightarrow>
               if \<not> has_next \<or> \<not> truthy results
               then Some (Inr (acc @ items), evs @ evs1)
               else pag env endpoint params (page + 1) (acc @ items)
                      (evs @ evs1 @ [Sleep 100]))) = Some res"
  obtain r1 evs1 where f: "fetch_page env endpoint params page = (r1, evs1)"
    by (cases "fetch_page env endpoint params page") auto
  have q1: "list_all api_event evs1" using fetch_page_events [of env endpoint params page] f by simp
  show "list_all api_event evs \<longrightarrow> list_all api_event (snd res)"
  proof
    assume q: "list_all api_event evs"
    from body f consider
        "snd res = evs @ evs1"
      | p where "pag env endpoint params (page + 1) p (evs @ evs1 @ [Sleep 100]) = Some res"
      by (auto split: sum.splits prod.splits if_splits)
    then show "list_all api_event (snd res)"
    proof cases
      case 1
      with q q1 show ?thesis by simp
    next
      case 2
      from IH [OF 2] q q1 show ?thesis by simp
    qed
  qed
qed

lemma get_lesson_content_events:
  assumes "get_lesson_content env lesson_id = Some (r, evs)"
  shows "list_all api_event evs"
proof -
  from assms obtain m where
    m: "get_paginated_results env
          (''/v1/lessons/'' @ py_str (py_repr env) lesson_id @ ''/content-items'') [] = Some m"
    and r: "(r, evs) = catch_request m
          (\<lambda>e. bnd (emit (Print (''Warning: Could not fetch content items for lesson '' @
                                  py_str (py_repr env) lesson_id)))
                 (\<lambda>_. ret []))"
    by (auto simp: get_lesson_content_def)
  from paginate_events [OF m [unfolded get_paginated_results_def]]
  have "list_all api_event (snd m)" by simp
  with r show ?thesis
    by (cases m) (auto simp: catch_request_def bnd_def emit_def ret_def split: sum.splits if_splits)
qed

lemma pbnd_Some_cases:
  assumes "pbnd m f = Some (r, evs)"
  obtains (failed) e where "m = Some (Inl e, evs)" "r = Inl e"
    | (went_on) x e1 e2 where "m = Some (Inr x, e1)" "f x = Some (r, e2)" "evs = e1 @ e2"
  using assms
  by (auto simp: pbnd_def split: option.splits sum.splits prod.splits)


lemma api_event_quiet: "api_event e \<Longrightarrow> quiet e"
  by (cases e) simp_all

lemma api_events_quiet: "list_all api_event evs \<Longrightarrow> list_all quiet evs"
  by (induction evs) (auto simp: api_event_quiet)

lemma list_all_bnd:
  assumes "list_all P (snd m)" and "\<And>x. list_all P (snd (f x))"
  shows "list_all P (snd (bnd m f))"
  using assms by (simp add: snd_bnd split: sum.splits)

lemma download_file_loop_events: "list_all loop_event (snd (download_file env u d p x))"
  by (auto simp: download_file_def bnd_def emit_def catch_def lift_def raise_def ret_def Let_def
      split: prod.splits sum.splits option.splits)

lemma lift_events [simp]: "snd (lift r) = []"
  by (simp add: lift_def)

lemma ret_events [simp]: "snd (ret x) = []"
  by (simp add: ret_def)

lemma direct_files_loop_events:
  "list_all loop_event (snd (download_direct_files env dir i items))"
proof (induction items arbitrary: i)
  case Nil
  show ?case by simp
next
  case (Cons item items)
  show ?case
    unfolding download_direct_files.simps
    by (auto intro!: list_all_bnd Cons.IH simp: download_file_loop_events)
qed

lemma catch_events:
  assumes "list_all P (snd m)" and "\<And>e. list_all P (snd (h e))"
  shows "list_all P (snd (catch m h))"
proof -
  have "snd (catch m h) = (case fst m of Inl e \<Rightarrow> snd m @ snd (h e) | Inr x \<Rightarrow> snd m)"
    by (auto simp: catch_def split: prod.splits sum.splits)
  then show ?thesis using assms by (simp split: sum.splits)
qed

lemma download_assets_loop_events:
  "list_all loop_event (snd (download_assets env dir c urls))"
proof (induction urls arbitrary: c)
  case Nil
  show ?case by simp
next
  case (Cons url urls)
  show ?case
    unfolding download_assets.simps
    by (auto intro!: list_all_bnd Cons.IH catch_events
             simp: download_file_loop_events Let_def emit_def)
qed

lemma html_assets_loop_events:
  "list_all loop_event (snd (download_html_assets env dir c items))"
proof (induction items arbitrary: c)
  case Nil
  show ?case by simp
next
  case (Cons item items)
  show ?case
    unfolding download_html_assets.simps
    by (auto intro!: list_all_bnd Cons.IH simp: download_assets_loop_events)
qed


lemma pbnd_pure: "pbnd (Some m) (\<lambda>x. Some (f x)) = Some (bnd m f)"
  by (auto simp: pbnd_def bnd_def split: sum.splits prod.splits)

lemma pbnd_assoc: "pbnd (pbnd m f) g = pbnd m (\<lambda>x. pbnd (f x) g)"
  by (auto simp: pbnd_def split: option.splits sum.splits prod.splits)

lemma pbnd_bnd: "pbnd (Some (bnd m f)) g = pbnd (Some m) (\<lambda>x. pbnd (Some (f x)) g)"
  by (auto simp: pbnd_def bnd_def split: option.splits sum.splits prod.splits)

lemma download_lesson_content_unfold:
  "download_lesson_content env lesson output_dir =
     pbnd (Some (lift (lesson_directory env lesson output_dir)))
       (\<lambda>(lesson_id, lesson_title, lesson_dir).
     pbnd (Some (lesson_head env lesson_id lesson_title lesson_dir)) (\<lambda>_.
     pbnd (get_lesson_content env lesson_id) (\<lambda>content_items.
     Some (lesson_tail env lesson_dir content_items))))"
  unfolding download_lesson_content_def lesson_head_def lesson_tail_def
  by (simp add: pbnd_bnd pbnd_pure cong: if_cong)


lemma lesson_head_quiet: "list_all quiet (snd (lesson_head env lesson_id lesson_title lesson_dir))"
  using api_events_quiet [OF get_lesson_details_events [of env lesson_id]]
  by (auto simp: lesson_head_def snd_bnd do_mkdir_def raise_def emit_def write_json_def
        split: sum.splits option.splits)

lemma lesson_head_completed:
  assumes "fst (lesson_head env lesson_id lesson_title lesson_dir) = Inr ()"
  obtains details d_evs where
    "get_lesson_details env lesson_id = (Inr details, d_evs)"
    "snd (lesson_head env lesson_id lesson_title lesson_dir) =
       Mkdir lesson_dir #
       Print (''  Downloading lesson: '' @ py_str (py_repr env) lesson_title) # d_evs @
       [Write_json (lesson_dir @ [''lesson_metadata.json'']) details]"
proof -
  obtain r d_evs where g: "get_lesson_details env lesson_id = (r, d_evs)"
    by (cases "get_lesson_details env lesson_id") auto
  from assms g obtain details where r: "r = Inr details"
    by (cases r)
       (auto simp: lesson_head_def fst_bnd do_mkdir_def raise_def emit_def
             split: sum.splits option.splits)
  from assms g r have
    "snd (lesson_head env lesson_id lesson_title lesson_dir) =
       Mkdir lesson_dir #
       Print (''  Downloading lesson: '' @ py_str (py_repr env) lesson_title) # d_evs @
       [Write_json (lesson_dir @ [''lesson_metadata.json'']) details]"
    by (auto simp: lesson_head_def fst_bnd snd_bnd do_mkdir_def raise_def emit_def
          write_json_def split: sum.splits option.splits)
  with g r that show ?thesis by blast
qed

lemma lesson_tail_empty: "lesson_tail env lesson_dir [] = (Inr (), [Sleep 200])"
  by (simp add: lesson_tail_def bnd_ret emit_def)

lemma lesson_tail_events:
  assumes "content_items \<noteq> []"
  shows "snd (lesson_tail env lesson_dir content_items) = [] \<or>
         (\<exists>rest. snd (lesson_tail env lesson_dir content_items) =
            Write_json (lesson_dir @ [''content_items.json'']) (JList content_items) # rest)"
  using assms
  by (auto simp: lesson_tail_def snd_bnd write_json_def raise_def emit_def
        split: sum.splits option.splits)

lemma lesson_tail_completed:
  assumes "fst (lesson_tail env lesson_dir content_items) = Inr ()"
  obtains n where
    "fst (download_direct_files env lesson_dir 0 content_items) = Inr ()"
    "fst (download_html_assets env lesson_dir 0 content_items) = Inr n"
    "snd (lesson_tail env lesson_dir content_items) =
       (if content_items \<noteq> []
        then [Write_json (lesson_dir @ [''content_items.json'']) (JList content_items)]
        else []) @
       snd (download_direct_files env lesson_dir 0 content_items) @
       snd (download_html_assets env lesson_dir 0 content_items) @ [Sleep 200]"
proof -
  from assms obtain n where
    1: "fst (download_direct_files env lesson_dir 0 content_items) = Inr ()" and
    2: "fst (download_html_assets env lesson_dir 0 content_items) = Inr n" and
    3: "content_items \<noteq> [] \<longrightarrow>
          write_file env (lesson_dir @ [''content_items.json'']) = None"
    by (auto simp: lesson_tail_def fst_bnd write_json_def raise_def emit_def ret_def
          split: sum.splits option.splits if_splits)
  then have "snd (lesson_tail env lesson_dir content_items) =
       (if content_items \<noteq> []
        then [Write_json (lesson_dir @ [''content_items.json'']) (JList content_items)]
        else []) @
       snd (download_direct_files env lesson_dir 0 content_items) @
       snd (download_html_assets env lesson_dir 0 content_items) @ [Sleep 200]"
    by (auto simp: lesson_tail_def snd_bnd write_json_def emit_def ret_def)
  with 1 2 that show ?thesis by blast
qed

lemma completed_lesson:
  assumes "download_lesson_content env lesson output_dir = Some (Inr (), evs)"
  obtains lesson_id title dir details d_evs content_items c_evs n where
    "lesson_directory env lesson output_dir = Inr (lesson_id, title, dir)"
    "get_lesson_details env lesson_id = (Inr details, d_evs)"
    "get_lesson_content env lesson_id = Some (Inr content_items, c_evs)"
    "fst (download_direct_files env dir 0 content_items) = Inr ()"
    "fst (download_html_assets env dir 0 content_items) = Inr n"
    "evs = Mkdir dir # Print (''  Downloading lesson: '' @ py_str (py_repr env) title) #
           d_evs @ [Write_json (dir @ [''lesson_metadata.json'']) details] @ c_evs @
           (if content_items \<noteq> []
            then [Write_json (dir @ [''content_items.json'']) (JList content_items)]
            else []) @
           snd (download_direct_files env dir 0 content_items) @
           snd (download_html_assets env dir 0 content_items) @ [Sleep 200]"
proof -
  from assms [unfolded download_lesson_content_unfold]
  show ?thesis
  proof (cases rule: pbnd_Some_cases)
    case (failed e)
    then show ?thesis by simp
  next
    case (went_on x e1 e2)
    obtain lesson_id title dir where x: "x = (lesson_id, title, dir)" by (cases x) auto
    from went_on(1) have ld: "lesson_directory env lesson output_dir = Inr (lesson_id, title, dir)"
      and e1: "e1 = []" by (simp_all add: lift_def x)
    from went_on(2) [unfolded x prod.case] show ?thesis
    proof (cases rule: pbnd_Some_cases)
      case (failed e)
      then show ?thesis by simp
    next
      case head: (went_on u h1 h2)
      from head(1) have "fst (lesson_head env lesson_id title dir) = Inr ()"
        and h1: "snd (lesson_head env lesson_id title dir) = h1" by simp_all
      from lesson_head_completed [OF this(1)] obtain details d_evs where
        det: "get_lesson_details env lesson_id = (Inr details, d_evs)" and
        hev: "snd (lesson_head env lesson_id title dir) =
               Mkdir dir # Print (''  Downloading lesson: '' @ py_str (py_repr env) title) #
               d_evs @ [Write_json (dir @ [''lesson_metadata.json'']) details]"
        by blast
      from head(2) show ?thesis
      proof (cases rule: pbnd_Some_cases)
        case (failed e)
        then show ?thesis by simp
      next
        case fetched: (went_on content_items c_evs t_evs)
        from fetched(2) have "fst (lesson_tail env dir content_items) = Inr ()"
          and t: "snd (lesson_tail env dir content_items) = t_evs"
          by (cases "lesson_tail env dir content_items"; simp)+
        from lesson_tail_completed [OF this(1)] obtain n where
          f: "fst (download_direct_files env dir 0 content_items) = Inr ()" and
          a: "fst (download_html_assets env dir 0 content_items) = Inr n" and
          tev: "snd (lesson_tail env dir content_items) =
             (if content_items \<noteq> []
              then [Write_json (dir @ [''content_items.json'']) (JList content_items)]
              else []) @
             snd (download_direct_files env dir 0 content_items) @
             snd (download_html_assets env dir 0 content_items) @ [Sleep 200]"
          by blast
        have "evs = Mkdir dir # Print (''  Downloading lesson: '' @ py_str (py_repr env) title) #
           d_evs @ [Write_json (dir @ [''lesson_metadata.json'']) details] @ c_evs @
           (if content_items \<noteq> []
            then [Write_json (dir @ [''content_items.json'']) (JList content_items)]
            else []) @
           snd (download_direct_files env dir 0 content_items) @
           snd (download_html_assets env dir 0 content_items) @ [Sleep 200]"
          using went_on(3) e1 head(3) h1 hev fetched(3) t tev by simp
        with ld det fetched(1) f a that show ?thesis by blast
      qed
    qed
  qed
qed

subsection \<open>Content items that cannot be fetched\<close>

lemma json_files_simps [simp]:
  "json_files [] = []"
  "json_files (Write_json file obj # evs) = file # json_files evs"
  "json_files (Print m # evs) = json_files evs"
  "json_files (Sleep n # evs) = json_files evs"
  "json_files (Session_request me ur kw # evs) = json_files evs"
  "json_files (Mkdir dir # evs) = json_files evs"
  "json_files (Download_file_call u d p x # evs) = json_files evs"
  "json_files (Requests_get ur # evs) = json_files evs"
  "json_files (Write_bytes file body # evs) = json_files evs"
  by (simp_all add: json_files_def map_filter_simps)

lemma json_files_append [simp]: "json_files (a @ b) = json_files a @ json_files b"
  by (induction a) (simp_all add: json_files_def map_filter_simps split: option.splits)

lemma api_events_json_files: "list_all api_event evs \<Longrightarrow> json_files evs = []"
proof (induction evs)
  case Nil
  show ?case by simp
next
  case (Cons e evs)
  then show ?case by (cases e) simp_all
qed

lemma loop_events_json_files: "list_all loop_event evs \<Longrightarrow> json_files evs = []"
proof (induction evs)
  case Nil
  show ?case by simp
next
  case (Cons e evs)
  then show ?case by (cases e) simp_all
qed

lemma lesson_head_run:
  assumes "mkdir env dir = None"
    and "get_lesson_details env lesson_id = (Inr details, d_evs)"
    and "write_file env (dir @ [''lesson_metadata.json'']) = None"
  shows "lesson_head env lesson_id title dir = (Inr (), head_events env title dir d_evs details)"
  using assms
  by (simp add: lesson_head_def head_events_def do_mkdir_def write_json_def bnd_def emit_def)

lemma get_lesson_content_fails:
  assumes "get_paginated_results env (content_endpoint env lesson_id) [] =
             Some (Inl (RequestException cause), p_evs)"
  shows "get_lesson_content env lesson_id =
           Some (Inr [], p_evs @ [content_warning env lesson_id])"
  using assms
  by (simp add: get_lesson_content_def content_endpoint_def content_warning_def
        catch_request_def bnd_def emit_def ret_def)

lemma lesson_run:
  assumes "lesson_directory env lesson output_dir = Inr (lesson_id, title, dir)"
    and "lesson_head env lesson_id title dir = (Inr (), h_evs)"
    and "get_lesson_content env lesson_id = Some (Inr items, c_evs)"
  shows "download_lesson_content env lesson output_dir =
           Some (fst (lesson_tail env dir items),
                 h_evs @ c_evs @ snd (lesson_tail env dir items))"
  using assms
  by (cases "lesson_tail env dir items")
     (simp add: download_lesson_content_unfold pbnd_def lift_def)

lemma lesson_tail_json_files:
  assumes "write_file env (dir @ [''content_items.json'']) = None"
  shows "json_files (snd (lesson_tail env dir items)) =
           (if items \<noteq> [] then [dir @ [''content_items.json'']] else [])"
proof -
  have d: "json_files (snd (download_direct_files env dir 0 items)) = []"
    by (rule loop_events_json_files [OF direct_files_loop_events])
  have a: "json_files (snd (download_html_assets env dir 0 items)) = []"
    by (rule loop_events_json_files [OF html_assets_loop_events])
  show ?thesis
    using assms d a
    by (auto simp: lesson_tail_def snd_bnd write_json_def emit_def ret_def split: sum.splits)
qed

lemma lesson_tail_content_write:
  assumes "write_file env (dir @ [''content_items.json'']) = None" and "items \<noteq> []"
  shows "Write_json (dir @ [''content_items.json'']) (JList items) \<in>
           set (snd (lesson_tail env dir items))"
  using assms
  by (auto simp: lesson_tail_def snd_bnd write_json_def emit_def ret_def split: sum.splits)

text \<open>
  C6. Let the directory of the lesson be made, its details be fetched and
  \<^verbatim>\<open>lesson_metadata.json\<close> be written. If the paginated fetch of the content items fails
  with a \<^verbatim>\<open>RequestException\<close> (a transport failure or an HTTP error status), then
  \<^verbatim>\<open>get_lesson_content\<close> returns the empty list and adds one warning to the log, and
  \<^verbatim>\<open>download_lesson_content\<close> returns normally: after the events up to the write of
  \<^verbatim>\<open>lesson_metadata.json\<close> come the events of the failed fetch, the warning and the
  final pause, and nothing else. Whenever the content items are fetched and
  \<^verbatim>\<open>content_items.json\<close> can be opened, the run starts with the events up to the write of
  \<^verbatim>\<open>lesson_metadata.json\<close>, and \<^verbatim>\<open>content_items.json\<close> is among the JSON files written
  if and only if the list of content items is not empty; it then holds that list.
\<close>

theorem content_fetch_failure_is_not_fatal:
  assumes "lesson_directory env lesson output_dir = Inr (lesson_id, title, dir)"
    and "mkdir env dir = None"
    and "get_lesson_details env lesson_id = (Inr details, d_evs)"
    and "write_file env (dir @ [''lesson_metadata.json'']) = None"
  shows "(get_paginated_results env (content_endpoint env lesson_id) [] =
            Some (Inl (RequestException cause), p_evs) \<longrightarrow>
          get_lesson_content env lesson_id =
            Some (Inr [], p_evs @ [content_warning env lesson_id]) \<and>
          download_lesson_content env lesson output_dir =
            Some (Inr (), head_events env title dir d_evs details @ p_evs @
                          [content_warning env lesson_id, Sleep 200])) \<and>
         (get_lesson_content env lesson_id = Some (Inr items, c_evs) \<and>
          write_file env (dir @ [''content_items.json'']) = None \<and>
          download_lesson_content env lesson output_dir = Some (r, evs) \<longrightarrow>
          take (length d_evs + 3) evs = head_events env title dir d_evs details \<and>
          (dir @ [''content_items.json''] \<in> set (json_files evs)) = (items \<noteq> []) \<and>
          (items \<noteq> [] \<longrightarrow>
             Write_json (dir @ [''content_items.json'']) (JList items) \<in> set evs))"
proof (intro conjI impI)
  note head = lesson_head_run [OF assms(2,3,4), of title]
  {
    assume "get_paginated_results env (content_endpoint env lesson_id) [] =
              Some (Inl (RequestException cause), p_evs)"
    then show c: "get_lesson_content env lesson_id =
        Some (Inr [], p_evs @ [content_warning env lesson_id])"
      by (rule get_lesson_content_fails)
    from lesson_run [OF assms(1) head c]
    show "download_lesson_content env lesson output_dir =
            Some (Inr (), head_events env title dir d_evs details @ p_evs @
                          [content_warning env lesson_id, Sleep 200])"
      by (simp add: lesson_tail_empty)
  }
  assume a: "get_lesson_content env lesson_id = Some (Inr items, c_evs) \<and>
          write_file env (dir @ [''content_items.json'']) = None \<and>
          download_lesson_content env lesson output_dir = Some (r, evs)"
  then have c: "get_lesson_content env lesson_id = Some (Inr items, c_evs)"
    and w: "write_file env (dir @ [''content_items.json'']) = None"
    and run: "download_lesson_content env lesson output_dir = Some (r, evs)"
    by simp_all
  from lesson_run [OF assms(1) head c] run
  have evs: "evs = head_events env title dir d_evs details @ c_evs @
                   snd (lesson_tail env dir items)"
    by simp
  have len: "length (head_events env title dir d_evs details) = length d_evs + 3"
    by (simp add: head_events_def)
  show "take (length d_evs + 3) evs = head_events env title dir d_evs details"
    unfolding evs len [symmetric] by simp
  have d: "json_files d_evs = []"
    using get_lesson_details_events [of env lesson_id] assms(3)
    by (auto intro: api_events_json_files)
  have ce: "json_files c_evs = []"
    by (rule api_events_json_files [OF get_lesson_content_events [OF c]])
  have h: "json_files (head_events env title dir d_evs details) =
             [dir @ [''lesson_metadata.json'']]"
    by (simp add: head_events_def d)
  show "(dir @ [''content_items.json''] \<in> set (json_files evs)) = (items \<noteq> [])"
    unfolding evs by (simp add: h ce lesson_tail_json_files [OF w])
  show "Write_json (dir @ [''content_items.json'']) (JList items) \<in> set evs"
    if "items \<noteq> []"
    unfolding evs using lesson_tail_content_write [OF w that] by simp
qed

lemma demo_lesson2:
  "lesson_directory demo lesson2 [''downloads'', ''course_c1''] =
     Inr (JStr ''L2'', JStr ''Wrap-up'', [''downloads'', ''course_c1'', ''Wrap-up_L2''])"
  "mkdir demo [''downloads'', ''course_c1'', ''Wrap-up_L2''] = None"
  "get_lesson_details demo (JStr ''L2'') =
     (Inr (JObj [(''id'', JStr ''L2''), (''order'', JInt 2)]),
      [Session_request ''GET'' ''https://api.skilljar.com/v1/lessons/L2'' []])"
  "write_file demo ([''downloads'', ''course_c1'', ''Wrap-up_L2''] @ [''lesson_metadata.json'']) =
     None"
  "get_paginated_results demo (content_endpoint demo (JStr ''L2'')) [] =
     Some (Inl (RequestException ''404 Client Error''),
       [Session_request ''GET'' ''https://api.skilljar.com/v1/lessons/L2/content-items''
          [(''page'', JInt 1)],
        Print ''Error making request to https://api.skilljar.com/v1/lessons/L2/content-items: 404 Client Error''])"
  "write_file demo ([''downloads'', ''course_c1'', ''Wrap-up_L2''] @ [''content_items.json'']) =
     None"
  by code_simp+

lemma demo_lesson2_events:
  "head_events demo (JStr ''Wrap-up'') [''downloads'', ''course_c1'', ''Wrap-up_L2'']
     [Session_request ''GET'' ''https://api.skilljar.com/v1/lessons/L2'' []]
     (JObj [(''id'', JStr ''L2''), (''order'', JInt 2)]) =
   [Mkdir [''downloads'', ''course_c1'', ''Wrap-up_L2''],
    Print ''  Downloading lesson: Wrap-up'',
    Session_request ''GET'' ''https://api.skilljar.com/v1/lessons/L2'' [],
    Write_json [''downloads'', ''course_c1'', ''Wrap-up_L2'', ''lesson_metadata.json'']
      (JObj [(''id'', JStr ''L2''), (''order'', JInt 2)])]"
  "content_warning demo (JStr ''L2'') =
     Print ''Warning: Could not fetch content items for lesson L2''"
  by code_simp+

theorem content_fetch_failure_is_not_fatal_witness:
  "get_lesson_content demo (JStr ''L2'') =
     Some (Inr [],
       [Session_request ''GET'' ''https://api.skilljar.com/v1/lessons/L2/content-items''
          [(''page'', JInt 1)],
        Print ''Error making request to https://api.skilljar.com/v1/lessons/L2/content-items: 404 Client Error'',
        Print ''Warning: Could not fetch content items for lesson L2'']) \<and>
   download_lesson_content demo lesson2 [''downloads'', ''course_c1''] =
     Some (Inr (),
       [Mkdir [''downloads'', ''course_c1'', ''Wrap-up_L2''],
        Print ''  Downloading lesson: Wrap-up'',
        Session_request ''GET'' ''https://api.skilljar.com/v1/lessons/L2'' [],
        Write_json [''downloads'', ''course_c1'', ''Wrap-up_L2'', ''lesson_metadata.json'']
          (JObj [(''id'', JStr ''L2''), (''order'', JInt 2)]),
        Session_request ''GET'' ''https://api.skilljar.com/v1/lessons/L2/content-items''
          [(''page'', JInt 1)],
        Print ''Error making request to https://api.skilljar.com/v1/lessons/L2/content-items: 404 Client Error'',
        Print ''Warning: Could not fetch content items for lesson L2'',
        Sleep 200]) \<and>
   [''downloads'', ''course_c1'', ''Wrap-up_L2'', ''content_items.json''] \<notin>
     set (json_files
       [Mkdir [''downloads'', ''course_c1'', ''Wrap-up_L2''],
        Print ''  Downloading lesson: Wrap-up'',
        Session_request ''GET'' ''https://api.skilljar.com/v1/lessons/L2'' [],
        Write_json [''downloads'', ''course_c1'', ''Wrap-up_L2'', ''lesson_metadata.json'']
          (JObj [(''id'', JStr ''L2''), (''order'', JInt 2)]),
        Session_request ''GET'' ''https://api.skilljar.com/v1/lessons/L2/content-items''
          [(''page'', JInt 1)],
        Print ''Error making request to https://api.skilljar.com/v1/lessons/L2/content-items: 404 Client Error'',
        Print ''Warning: Could not fetch content items for lesson L2'',
        Sleep 200])"
proof -
  note t = content_fetch_failure_is_not_fatal
    [OF demo_lesson2(1,2,3,4),
     where cause = "''404 Client Error''"
       and p_evs = "[Session_request ''GET''
                       ''https://api.skilljar.com/v1/lessons/L2/content-items''
                       [(''page'', JInt 1)],
                     Print ''Error making request to https://api.skilljar.com/v1/lessons/L2/content-items: 404 Client Error'']"
       and items = "[]"
       and c_evs = "[Session_request ''GET''
                       ''https://api.skilljar.com/v1/lessons/L2/content-items''
                       [(''page'', JInt 1)],
                     Print ''Error making request to https://api.skilljar.com/v1/lessons/L2/content-items: 404 Client Error'',
                     Print ''Warning: Could not fetch content items for lesson L2'']"
       and r = "Inr ()"
       and evs = "[Mkdir [''downloads'', ''course_c1'', ''Wrap-up_L2''],
        Print ''  Downloading lesson: Wrap-up'',
        Session_request ''GET'' ''https://api.skilljar.com/v1/lessons/L2'' [],
        Write_json [''downloads'', ''course_c1'', ''Wrap-up_L2'', ''lesson_metadata.json'']
          (JObj [(''id'', JStr ''L2''), (''order'', JInt 2)]),
        Session_request ''GET'' ''https://api.skilljar.com/v1/lessons/L2/content-items''
          [(''page'', JInt 1)],
        Print ''Error making request to https://api.skilljar.com/v1/lessons/L2/content-items: 404 Client Error'',
        Print ''Warning: Could not fetch content items for lesson L2'',
        Sleep 200]",
     unfolded demo_lesson2_events]
  from t demo_lesson2(5,6) show ?thesis
    by (simp only: simp_thms append.simps list.simps not_False_eq_True)
qed

subsection \<open>Metadata before downloads\<close>

lemma demo_lesson1_run:
  "download_lesson_content demo lesson1 [''downloads'', ''course_c1''] =
     Some (Inr (), lesson1_events)"
  by code_simp

lemma demo_lesson1:
  "lesson_directory demo lesson1 [''downloads'', ''course_c1''] =
     Inr (JStr ''L1'', JStr ''Intro: Part 1/2?'', lesson1_dir)"
  "get_lesson_details demo (JStr ''L1'') =
     (Inr (JObj [(''id'', JStr ''L1''), (''order'', JInt 1)]),
      [Session_request ''GET'' ''https://api.skilljar.com/v1/lessons/L1'' []])"
  "get_lesson_content demo (JStr ''L1'') =
     Some (Inr [item0, item1, item2],
       [Session_request ''GET'' ''https://api.skilljar.com/v1/lessons/L1/content-items''
          [(''page'', JInt 1)]])"
  by code_simp+

lemma takeWhile_quiet_append:
  "list_all quiet a \<Longrightarrow> takeWhile quiet (a @ b) = a @ takeWhile quiet b"
  by (induction a) simp_all

text \<open>
  C8. In every run of \<^verbatim>\<open>download_lesson_content\<close> that returns or raises, either no asset
  is downloaded at all (the run has no call of \<^verbatim>\<open>_download_file\<close>, no GET of an asset and
  no file body), or the lesson has details and a non-empty list of content
  items, and both the write of the details to \<^verbatim>\<open>lesson_metadata.json\<close> and the write of
  that list to \<^verbatim>\<open>content_items.json\<close> happen in the part of the run before its first
  download event.
\<close>

theorem metadata_written_before_downloads:
  assumes "download_lesson_content env lesson output_dir = Some (r, evs)"
  shows "list_all quiet evs \<or>
         (\<exists>lesson_id title dir details d_evs items c_evs.
            lesson_directory env lesson output_dir = Inr (lesson_id, title, dir) \<and>
            get_lesson_details env lesson_id = (Inr details, d_evs) \<and>
            get_lesson_content env lesson_id = Some (Inr items, c_evs) \<and>
            items \<noteq> [] \<and>
            Write_json (dir @ [''lesson_metadata.json'']) details \<in>
              set (takeWhile quiet evs) \<and>
            Write_json (dir @ [''content_items.json'']) (JList items) \<in>
              set (takeWhile quiet evs))"
proof -
  from assms [unfolded download_lesson_content_unfold]
  show ?thesis
  proof (cases rule: pbnd_Some_cases)
    case (failed e)
    then show ?thesis by (simp add: lift_def split: sum.splits)
  next
    case (went_on x e1 e2)
    obtain lesson_id title dir where x: "x = (lesson_id, title, dir)" by (cases x) auto
    from went_on(1) have ld: "lesson_directory env lesson output_dir = Inr (lesson_id, title, dir)"
      and e1: "e1 = []" by (simp_all add: lift_def x)
    note hq = lesson_head_quiet [of env lesson_id title dir]
    from went_on(2) [unfolded x prod.case] show ?thesis
    proof (cases rule: pbnd_Some_cases)
      case (failed e)
      with hq went_on(3) e1 show ?thesis by simp
    next
      case head: (went_on u h1 h2)
      from head(1) have hc: "fst (lesson_head env lesson_id title dir) = Inr ()"
        and h1: "snd (lesson_head env lesson_id title dir) = h1" by simp_all
      from hq h1 have qh: "list_all quiet h1" by simp
      from lesson_head_completed [OF hc] obtain details d_evs where
        det: "get_lesson_details env lesson_id = (Inr details, d_evs)" and
        hev: "snd (lesson_head env lesson_id title dir) =
               Mkdir dir # Print (''  Downloading lesson: '' @ py_str (py_repr env) title) #
               d_evs @ [Write_json (dir @ [''lesson_metadata.json'']) details]"
        by blast
      from hev h1 have meta: "Write_json (dir @ [''lesson_metadata.json'']) details \<in> set h1"
        by auto
      from head(2) show ?thesis
      proof (cases rule: pbnd_Some_cases)
        case (failed e)
        from api_events_quiet [OF get_lesson_content_events [OF failed(1)]] qh
        show ?thesis using went_on(3) e1 head(3) by simp
      next
        case fetched: (went_on items c_evs t_evs)
        from api_events_quiet [OF get_lesson_content_events [OF fetched(1)]]
        have qc: "list_all quiet c_evs" .
        from fetched(2) have t: "snd (lesson_tail env dir items) = t_evs"
          by (cases "lesson_tail env dir items") simp
        have evs: "evs = h1 @ c_evs @ t_evs"
          using went_on(3) e1 head(3) fetched(3) by simp
        show ?thesis
        proof (cases "items = []")
          case True
          with t have "t_evs = [Sleep 200]" by (simp add: lesson_tail_empty)
          with evs qh qc show ?thesis by simp
        next
          case False
          from lesson_tail_events [OF False, of env dir] t
          consider "t_evs = []"
            | rest where
              "t_evs = Write_json (dir @ [''content_items.json'']) (JList items) # rest"
            by auto
          then show ?thesis
          proof cases
            case 1
            with evs qh qc show ?thesis by simp
          next
            case 2
            have tw: "takeWhile quiet evs =
                h1 @ c_evs @ Write_json (dir @ [''content_items.json'']) (JList items) #
                takeWhile quiet rest"
              unfolding evs 2 by (simp add: takeWhile_quiet_append qh qc)
            from ld det fetched(1) False meta tw show ?thesis by auto
          qed
        qed
      qed
    qed
  qed
qed

lemma demo_lesson1_downloads: "\<not> list_all quiet lesson1_events"
  by code_simp

theorem metadata_written_before_downloads_witness:
  "download_lesson_content demo lesson1 [''downloads'', ''course_c1''] =
     Some (Inr (), lesson1_events) \<and>
   \<not> list_all quiet lesson1_events \<and>
   Write_json (lesson1_dir @ [''lesson_metadata.json''])
     (JObj [(''id'', JStr ''L1''), (''order'', JInt 1)]) \<in>
     set (takeWhile quiet lesson1_events) \<and>
   Write_json (lesson1_dir @ [''content_items.json'']) (JList [item0, item1, item2]) \<in>
     set (takeWhile quiet lesson1_events)"
  using metadata_written_before_downloads [OF demo_lesson1_run]
    demo_lesson1_run demo_lesson1_downloads demo_lesson1
  by auto

subsection \<open>Direct content files\<close>

lemma completed_lesson_calls:
  assumes "download_lesson_content env lesson output_dir = Some (Inr (), evs)"
    and "lesson_directory env lesson output_dir = Inr (lesson_id, title, dir)"
    and "get_lesson_content env lesson_id = Some (Inr items, c_evs)"
  shows "list_all html_ok items"
    and "\<exists>pre. evs = pre @ snd (download_direct_files env dir 0 items) @
                 snd (download_assets env dir 0 (lesson_urls items)) @ [Sleep 200] \<and>
               list_all quiet pre"
    and "calls evs = direct_calls dir 0 items @ asset_calls env dir 0 (lesson_urls items)"
proof -
  from assms(1) obtain lesson_id' title' dir' details d_evs content_items c_evs' n where
    ld: "lesson_directory env lesson output_dir = Inr (lesson_id', title', dir')" and
    det: "get_lesson_details env lesson_id' = (Inr details, d_evs)" and
    con: "get_lesson_content env lesson_id' = Some (Inr content_items, c_evs')" and
    a: "fst (download_html_assets env dir' 0 content_items) = Inr n" and
    evs: "evs = Mkdir dir' # Print (''  Downloading lesson: '' @ py_str (py_repr env) title') #
           d_evs @ [Write_json (dir' @ [''lesson_metadata.json'']) details] @ c_evs' @
           (if content_items \<noteq> []
            then [Write_json (dir' @ [''content_items.json'']) (JList content_items)]
            else []) @
           snd (download_direct_files env dir' 0 content_items) @
           snd (download_html_assets env dir' 0 content_items) @ [Sleep 200]"
    by (rule completed_lesson)
  from ld assms(2) have eq: "lesson_id' = lesson_id" "title' = title" "dir' = dir" by simp_all
  from con assms(3) eq have it: "content_items = items" "c_evs' = c_evs" by simp_all
  from html_assets_ok [OF a] show ok: "list_all html_ok items" by (simp add: it)
  then have obj: "list_all is_object items"
    by (simp add: list_all_iff html_ok_object)
  have h: "download_html_assets env dir 0 items = download_assets env dir 0 (lesson_urls items)"
    unfolding lesson_urls_def by (rule html_assets_run [OF ok])
  let ?pre = "Mkdir dir # Print (''  Downloading lesson: '' @ py_str (py_repr env) title) #
           d_evs @ [Write_json (dir @ [''lesson_metadata.json'']) details] @ c_evs @
           (if items \<noteq> []
            then [Write_json (dir @ [''content_items.json'']) (JList items)]
            else [])"
  have qd: "list_all quiet d_evs"
    using api_events_quiet [OF get_lesson_details_events [of env lesson_id]] det eq by simp
  have qc: "list_all quiet c_evs"
    by (rule api_events_quiet [OF get_lesson_content_events [OF assms(3)]])
  have q: "list_all quiet ?pre" using qd qc by simp
  have e: "evs = ?pre @ snd (download_direct_files env dir 0 items) @
                 snd (download_assets env dir 0 (lesson_urls items)) @ [Sleep 200]"
    using evs by (simp add: eq it h)
  from e q show "\<exists>pre. evs = pre @ snd (download_direct_files env dir 0 items) @
                 snd (download_assets env dir 0 (lesson_urls items)) @ [Sleep 200] \<and>
               list_all quiet pre"
    by blast
  have "calls evs = calls ?pre @ calls (snd (download_direct_files env dir 0 items)) @
          calls (snd (download_assets env dir 0 (lesson_urls items)))"
    by (subst e) (simp only: calls_append calls_simps append_Nil2)
  also have "calls ?pre = []" by (rule quiet_calls [OF q])
  finally show "calls evs = direct_calls dir 0 items @ asset_calls env dir 0 (lesson_urls items)"
    using direct_files_run [OF obj, of env dir 0] download_assets_run [of env dir 0 "lesson_urls items"]
    by simp
qed

lemma direct_calls_Cons:
  "direct_calls dir i (item # items) =
     (if truthy (direct_url item)
      then [(direct_url item, dir, content_prefix i, True)] else []) @
     direct_calls dir (Suc i) items"
  by (simp add: direct_calls_def content_prefix_def)

lemma direct_calls_Nil [simp]: "direct_calls dir i [] = []"
  by (simp add: direct_calls_def)

lemma content_prefix_inject [simp]: "(content_prefix i = content_prefix j) = (i = j)"
  using dec_inject by (auto simp: content_prefix_def)

lemma asset_prefix_not_content [simp]: "asset_prefix k name \<noteq> content_prefix i"
  by (simp add: asset_prefix_def content_prefix_def)

lemma prefix_of_simp [simp]: "prefix_of (u, d, p, x) = p"
  by (simp add: prefix_of_def)

lemma uses_extension_simp [simp]: "uses_extension (u, d, p, x) = x"
  by (simp add: uses_extension_def)

lemma direct_calls_use_extension:
  "filter uses_extension (direct_calls dir i items) = direct_calls dir i items"
  by (induction items arbitrary: i) (simp_all add: direct_calls_Cons)

lemma asset_calls_no_extension:
  "filter uses_extension (asset_calls env dir c urls) = []"
  by (auto simp: asset_calls_def filter_empty_conv)

lemma direct_calls_with_prefix:
  "filter (\<lambda>c. prefix_of c = content_prefix j) (direct_calls dir i items) =
     (if i \<le> j \<and> j < i + length items \<and> truthy (direct_url (items ! (j - i)))
      then [(direct_url (items ! (j - i)), dir, content_prefix j, True)] else [])"
proof (induction items arbitrary: i)
  case Nil
  show ?case by simp
next
  case (Cons item items)
  show ?case
  proof (cases "i = j")
    case True
    then show ?thesis
      by (simp add: direct_calls_Cons Cons.IH)
  next
    case False
    have nth: "(item # items) ! (j - i) = items ! (j - Suc i)" if "i < j"
      using that by (simp add: nth_Cons split: nat.splits) (metis Suc_diff_Suc nat.inject)
    show ?thesis
    proof (cases "i < j")
      case True
      with False show ?thesis
        by (simp add: direct_calls_Cons Cons.IH nth [OF True] Suc_le_eq)
    next
      case ge: False
      with False show ?thesis
        by (simp add: direct_calls_Cons Cons.IH)
    qed
  qed
qed

lemma asset_calls_not_content:
  "filter (\<lambda>c. prefix_of c = content_prefix i) (asset_calls env dir c urls) = []"
  by (auto simp: asset_calls_def filter_empty_conv)

lemma demo_lesson1_items:
  "direct_calls lesson1_dir 0 [item0, item1, item2] =
     [(JStr ''https://cdn.example/intro.mp4'', lesson1_dir, ''content_0'', True),
      (JStr ''https://cdn.example/logo'', lesson1_dir, ''content_1'', True)]"
  "filter uses_extension (calls lesson1_events) =
     [(JStr ''https://cdn.example/intro.mp4'', lesson1_dir, ''content_0'', True),
      (JStr ''https://cdn.example/logo'', lesson1_dir, ''content_1'', True)]"
  "field item1 ''url'' = JStr []"
  "field item1 ''file_url'' = JStr ''https://cdn.example/logo''"
  "filter (\<lambda>c. prefix_of c = content_prefix 1) (calls lesson1_events) =
     [(JStr ''https://cdn.example/logo'', lesson1_dir, ''content_1'', True)]"
  "filter (\<lambda>c. prefix_of c = content_prefix 2) (calls lesson1_events) = []"
  "direct_url item0 = JStr ''https://cdn.example/intro.mp4''"
  "direct_url item1 = JStr ''https://cdn.example/logo''"
  "direct_url item2 = JNull"
  by code_simp+

lemma download_direct_files_append:
  "download_direct_files env dir i (items @ rest) =
     bnd (download_direct_files env dir i items)
       (\<lambda>_. download_direct_files env dir (i + length items) rest)"
proof (induction items arbitrary: i)
  case Nil
  show ?case by (simp add: bnd_ret)
next
  case (Cons item items)
  show ?case
    by (simp only: append_Cons download_direct_files.simps Cons.IH bnd_assoc)
      (simp add: bnd_assoc)
qed

lemma direct_files_leading:
  assumes "list_all is_object items"
  shows "calls (snd (download_direct_files env dir 0 (items @ rest))) =
           direct_calls dir 0 items @
           calls (snd (download_direct_files env dir (length items) rest))"
  using direct_files_run [OF assms, of env dir 0]
  by (simp add: download_direct_files_append snd_bnd)

lemma html_item_fails:
  assumes "\<not> html_ok item"
  shows "\<exists>e. download_html_assets env dir c (item # items) = (Inl e, [])"
proof (cases item)
  case (JObj kvs)
  with assms obtain v where v: "map_of kvs ''content_html'' = Some v"
    "\<not> (case v of JStr h \<Rightarrow> True | v \<Rightarrow> \<not> truthy v)"
    by (cases "map_of kvs ''content_html''") (auto simp: html_ok_def)
  then show ?thesis
    unfolding JObj
    by (cases v) (simp_all add: bnd_lift_Inr bnd_def lift_def)
qed (simp_all add: bnd_def lift_def)

lemma html_assets_events:
  "snd (download_html_assets env dir c items) =
     snd (download_assets env dir c (lesson_urls (takeWhile html_ok items)))"
proof (induction items arbitrary: c)
  case Nil
  show ?case by (simp add: lesson_urls_def)
next
  case (Cons item items)
  show ?case
  proof (cases "html_ok item")
    case True
    have "download_html_assets env dir c (item # items) =
          bnd (download_assets env dir c (item_urls item))
            (\<lambda>c'. download_html_assets env dir c' items)"
      by (simp only: download_html_assets.simps html_item [OF True])
    moreover have "fst (download_assets env dir c us) =
        Inr (c + length (filter (accepted env) us))" for us
      using download_assets_run by blast
    ultimately show ?thesis
      using True
      by (simp add: snd_bnd lesson_urls_def download_assets_append Cons.IH)
  next
    case False
    from html_item_fails [OF False] obtain e where
      "download_html_assets env dir c (item # items) = (Inl e, [])" by blast
    with False show ?thesis by (simp add: lesson_urls_def)
  qed
qed

lemma html_assets_calls:
  "calls (snd (download_html_assets env dir c items)) =
     asset_calls env dir c (lesson_urls (takeWhile html_ok items))"
  using download_assets_run by (simp add: html_assets_events)

lemma head_events_quiet:
  assumes "get_lesson_details env lesson_id = (Inr details, d_evs)"
  shows "list_all quiet (head_events env title dir d_evs details)"
  using api_events_quiet [OF get_lesson_details_events [of env lesson_id]] assms
  by (simp add: head_events_def)

lemma lesson_loops_run:
  assumes "lesson_directory env lesson output_dir = Inr (lesson_id, title, dir)"
    and "mkdir env dir = None"
    and "get_lesson_details env lesson_id = (Inr details, d_evs)"
    and "write_file env (dir @ [''lesson_metadata.json'']) = None"
    and "get_lesson_content env lesson_id = Some (Inr items, c_evs)"
    and "write_file env (dir @ [''content_items.json'']) = None"
    and "list_all is_object items"
    and "download_lesson_content env lesson output_dir = Some (r, evs)"
  shows "\<exists>before behind.
           evs = before @ snd (download_direct_files env dir 0 items) @
                 snd (download_assets env dir 0 (lesson_urls (takeWhile html_ok items))) @
                 behind \<and>
           list_all quiet before \<and> list_all quiet behind"
proof -
  note head = lesson_head_run [OF assms(2,3,4), of title]
  from lesson_run [OF assms(1) head assms(5)] assms(8)
  have evs: "evs = head_events env title dir d_evs details @ c_evs @
                   snd (lesson_tail env dir items)"
    by simp
  have d: "fst (download_direct_files env dir 0 items) = Inr ()"
    using direct_files_run [OF assms(7)] by blast
  let ?w = "if items \<noteq> []
            then [Write_json (dir @ [''content_items.json'']) (JList items)] else []"
  let ?behind = "case fst (download_html_assets env dir 0 items) of
                   Inl e \<Rightarrow> [] | Inr n \<Rightarrow> [Sleep 200]"
  have t: "snd (lesson_tail env dir items) =
      ?w @ snd (download_direct_files env dir 0 items) @
      snd (download_html_assets env dir 0 items) @ ?behind"
    using assms(6) d
    by (auto simp: lesson_tail_def snd_bnd write_json_def emit_def ret_def split: sum.splits)
  have q: "list_all quiet (head_events env title dir d_evs details @ c_evs @ ?w)"
    using head_events_quiet [OF assms(3)]
      api_events_quiet [OF get_lesson_content_events [OF assms(5)]]
    by simp
  have b: "list_all quiet ?behind" by (simp split: sum.splits)
  have "evs = (head_events env title dir d_evs details @ c_evs @ ?w) @
          snd (download_direct_files env dir 0 items) @
          snd (download_assets env dir 0 (lesson_urls (takeWhile html_ok items))) @ ?behind"
    unfolding evs t html_assets_events by simp
  with q b show ?thesis by blast
qed

lemma lesson_loops_calls:
  assumes "lesson_directory env lesson output_dir = Inr (lesson_id, title, dir)"
    and "mkdir env dir = None"
    and "get_lesson_details env lesson_id = (Inr details, d_evs)"
    and "write_file env (dir @ [''lesson_metadata.json'']) = None"
    and "get_lesson_content env lesson_id = Some (Inr items, c_evs)"
    and "write_file env (dir @ [''content_items.json'']) = None"
    and "list_all is_object items"
    and "download_lesson_content env lesson output_dir = Some (r, evs)"
  shows "calls evs = direct_calls dir 0 items @
           asset_calls env dir 0 (lesson_urls (takeWhile html_ok items))"
proof -
  from lesson_loops_run [OF assms] obtain before behind where
    e: "evs = before @ snd (download_direct_files env dir 0 items) @
                 snd (download_assets env dir 0 (lesson_urls (takeWhile html_ok items))) @
                 behind"
    and q: "list_all quiet before" "list_all quiet behind"
    by blast
  show ?thesis
    unfolding e
    using direct_files_run [OF assms(7), of env dir 0]
      download_assets_run [of env dir 0 "lesson_urls (takeWhile html_ok items)"]
      quiet_calls [OF q(1)] quiet_calls [OF q(2)]
    by simp
qed

text \<open>
  C9 (as amended). Let the content items be objects. The first loop returns normally,
  and its calls of \<^verbatim>\<open>_download_file\<close> are: for the content item with index \<open>i\<close>, one
  call with the file name prefix \<^verbatim>\<open>content_<i>\<close>, for the direct resource URL of the
  item, into the lesson directory and with extension inference enabled, if the item
  has such a URL, and no call with that prefix otherwise. The direct resource URL is
  the value of \<^verbatim>\<open>url\<close> if that is not empty, else the value of \<^verbatim>\<open>file_url\<close>, and the item
  has one if that value is not empty. The calls for these items are made whatever
  items follow them in the list. In a run of \<^verbatim>\<open>download_lesson_content\<close> that reaches
  the loops (the directory is made, the details and the content items are fetched,
  both JSON files can be opened), however it ends, the calls with extension inference
  enabled are exactly these calls, in the order of the items.
\<close>

theorem direct_resource_downloaded_once:
  assumes "list_all is_object items"
  shows "fst (download_direct_files env dir 0 items) = Inr () \<and>
         calls (snd (download_direct_files env dir 0 (items @ rest))) =
           direct_calls dir 0 items @
           calls (snd (download_direct_files env dir (length items) rest)) \<and>
         (\<forall>i < length items.
            filter (\<lambda>c. prefix_of c = content_prefix i)
              (calls (snd (download_direct_files env dir 0 items))) =
              (if truthy (direct_url (items ! i))
               then [(direct_url (items ! i), dir, content_prefix i, True)] else []) \<and>
            direct_url (items ! i) =
              (if truthy (field (items ! i) ''url'') then field (items ! i) ''url''
               else field (items ! i) ''file_url'')) \<and>
         (lesson_directory env lesson output_dir = Inr (lesson_id, title, dir) \<and>
          mkdir env dir = None \<and>
          get_lesson_details env lesson_id = (Inr details, d_evs) \<and>
          write_file env (dir @ [''lesson_metadata.json'']) = None \<and>
          get_lesson_content env lesson_id = Some (Inr items, c_evs) \<and>
          write_file env (dir @ [''content_items.json'']) = None \<and>
          download_lesson_content env lesson output_dir = Some (r, evs) \<longrightarrow>
            filter uses_extension (calls evs) = direct_calls dir 0 items \<and>
            (\<forall>i < length items.
               filter (\<lambda>c. prefix_of c = content_prefix i) (calls evs) =
                 (if truthy (direct_url (items ! i))
                  then [(direct_url (items ! i), dir, content_prefix i, True)] else [])))"
proof (intro conjI impI)
  show "fst (download_direct_files env dir 0 items) = Inr ()"
    using direct_files_run [OF assms] by blast
  show "calls (snd (download_direct_files env dir 0 (items @ rest))) =
           direct_calls dir 0 items @
           calls (snd (download_direct_files env dir (length items) rest))"
    by (rule direct_files_leading [OF assms])
  have run: "calls (snd (download_direct_files env dir 0 items)) = direct_calls dir 0 items"
    using direct_files_run [OF assms] by blast
  show "\<forall>i < length items.
            filter (\<lambda>c. prefix_of c = content_prefix i)
              (calls (snd (download_direct_files env dir 0 items))) =
              (if truthy (direct_url (items ! i))
               then [(direct_url (items ! i), dir, content_prefix i, True)] else []) \<and>
            direct_url (items ! i) =
              (if truthy (field (items ! i) ''url'') then field (items ! i) ''url''
               else field (items ! i) ''file_url'')"
    unfolding run by (simp add: direct_calls_with_prefix direct_url_def)
  assume a: "lesson_directory env lesson output_dir = Inr (lesson_id, title, dir) \<and>
          mkdir env dir = None \<and>
          get_lesson_details env lesson_id = (Inr details, d_evs) \<and>
          write_file env (dir @ [''lesson_metadata.json'']) = None \<and>
          get_lesson_content env lesson_id = Some (Inr items, c_evs) \<and>
          write_file env (dir @ [''content_items.json'']) = None \<and>
          download_lesson_content env lesson output_dir = Some (r, evs)"
  then have c: "calls evs = direct_calls dir 0 items @
           asset_calls env dir 0 (lesson_urls (takeWhile html_ok items))"
    using lesson_loops_calls [of env lesson output_dir lesson_id title dir details d_evs
        items c_evs r evs] assms
    by blast
  show "filter uses_extension (calls evs) = direct_calls dir 0 items"
    unfolding c by (simp add: direct_calls_use_extension asset_calls_no_extension)
  show "\<forall>i < length items.
               filter (\<lambda>c. prefix_of c = content_prefix i) (calls evs) =
                 (if truthy (direct_url (items ! i))
                  then [(direct_url (items ! i), dir, content_prefix i, True)] else [])"
    unfolding c by (simp add: direct_calls_with_prefix asset_calls_not_content)
qed

lemma demo_lesson1_reached:
  "list_all is_object [item0, item1, item2]"
  "mkdir demo lesson1_dir = None"
  "write_file demo (lesson1_dir @ [''lesson_metadata.json'']) = None"
  "write_file demo (lesson1_dir @ [''content_items.json'']) = None"
  "takeWhile html_ok [item0, item1, item2] = [item0, item1, item2]"
  by code_simp+

theorem direct_resource_downloaded_once_witness:
  "calls (snd (download_direct_files demo lesson1_dir 0 [item0, item1, item2])) =
     [(JStr ''https://cdn.example/intro.mp4'', lesson1_dir, ''content_0'', True),
      (JStr ''https://cdn.example/logo'', lesson1_dir, ''content_1'', True)] \<and>
   filter (\<lambda>c. prefix_of c = content_prefix 1)
     (calls (snd (download_direct_files demo lesson1_dir 0 [item0, item1, item2]))) =
     [(JStr ''https://cdn.example/logo'', lesson1_dir, content_prefix 1, True)] \<and>
   download_lesson_content demo lesson1 [''downloads'', ''course_c1''] =
     Some (Inr (), lesson1_events) \<and>
   filter uses_extension (calls lesson1_events) =
     [(JStr ''https://cdn.example/intro.mp4'', lesson1_dir, ''content_0'', True),
      (JStr ''https://cdn.example/logo'', lesson1_dir, ''content_1'', True)] \<and>
   filter (\<lambda>c. prefix_of c = content_prefix 0) (calls lesson1_events) =
     [(JStr ''https://cdn.example/intro.mp4'', lesson1_dir, content_prefix 0, True)] \<and>
   filter (\<lambda>c. prefix_of c = content_prefix 2) (calls lesson1_events) = []"
proof -
  note t = direct_resource_downloaded_once
    [OF demo_lesson1_reached(1),
     where env = demo and dir = lesson1_dir and rest = "[]" and lesson = lesson1
       and output_dir = "[''downloads'', ''course_c1'']" and lesson_id = "JStr ''L1''"
       and title = "JStr ''Intro: Part 1/2?''"
       and details = "JObj [(''id'', JStr ''L1''), (''order'', JInt 1)]"
       and d_evs = "[Session_request ''GET'' ''https://api.skilljar.com/v1/lessons/L1'' []]"
       and c_evs = "[Session_request ''GET''
                       ''https://api.skilljar.com/v1/lessons/L1/content-items''
                       [(''page'', JInt 1)]]"
       and r = "Inr ()" and evs = lesson1_events]
  have e: "calls (snd (download_direct_files demo lesson1_dir (length [item0, item1, item2]) [])) =
             []"
    by (simp add: ret_def)
  from t [THEN conjunct2, THEN conjunct1]
  have a: "calls (snd (download_direct_files demo lesson1_dir 0 [item0, item1, item2])) =
      direct_calls lesson1_dir 0 [item0, item1, item2]"
    by (simp only: e append_Nil2)
  have len: "1 < length [item0, item1, item2]" "0 < length [item0, item1, item2]"
    "2 < length [item0, item1, item2]"
    by simp_all
  note b = t [THEN conjunct2, THEN conjunct2, THEN conjunct1, rule_format, THEN conjunct1]
  from t demo_lesson1 demo_lesson1_reached demo_lesson1_run
  have l: "filter uses_extension (calls lesson1_events) =
             direct_calls lesson1_dir 0 [item0, item1, item2] \<and>
           (\<forall>i < length [item0, item1, item2].
               filter (\<lambda>c. prefix_of c = content_prefix i) (calls lesson1_events) =
                 (if truthy (direct_url ([item0, item1, item2] ! i))
                  then [(direct_url ([item0, item1, item2] ! i), lesson1_dir,
                         content_prefix i, True)] else []))"
    by blast
  note c = l [THEN conjunct2, rule_format]
  have nth: "[item0, item1, item2] ! 0 = item0" "[item0, item1, item2] ! 1 = item1"
    "[item0, item1, item2] ! 2 = item2"
    by simp_all
  have tr: "truthy (direct_url item0)" "truthy (direct_url item1)" "\<not> truthy (direct_url item2)"
    by (simp_all add: demo_lesson1_items)
  from a b [OF len(1)] c [OF len(2)] c [OF len(3)] l [THEN conjunct1] demo_lesson1_run
  show ?thesis
    by (simp add: demo_lesson1_items del: download_direct_files.simps)
qed

text \<open>
  The claim as it was stated has the value of \<^verbatim>\<open>url\<close> downloaded whenever both fields are
  present. A content item with both fields whose \<^verbatim>\<open>url\<close> is the empty text has the value
  of \<^verbatim>\<open>file_url\<close> downloaded.
\<close>

theorem both_fields_present_counterexample:
  "py_in ''url'' item1 = Inr True \<and> py_in ''file_url'' item1 = Inr True \<and>
   field item1 ''url'' = JStr [] \<and>
   calls (snd (download_direct_files demo lesson1_dir 0 [item1])) =
     [(JStr ''https://cdn.example/logo'', lesson1_dir, ''content_0'', True)]"
  by code_simp

end
